theory Spec2Isabelle
  imports Main "HOL-Library.AList" "HOL-Library.Sublist"
begin

section \<open>Errors and JavaScript property lookup\<close>

text \<open>
  Exceptions of the program are values. \<open>TypeError\<close> and \<open>SyntaxError\<close> are the
  exceptions the JavaScript runtime raises by itself (reading a property of \<open>undefined\<close>,
  compiling an ill-formed regular expression); \<open>Error msg\<close> is an exception the code
  raises with \<^verbatim>\<open>throw new Error(msg)\<close>. \<open>NotAString k\<close> marks the one place where the
  key handler hands a value that is not a string to a helper declared on strings; what
  the helper does with it is not determined by the sources at hand.
\<close>

datatype error = TypeError | SyntaxError | Error string | NotAString string

text \<open>
  An object written as the literal \<^verbatim>\<open>{}\<close> inherits from \<^verbatim>\<open>Object.prototype\<close>.
  A bracket read \<^verbatim>\<open>obj[k]\<close> therefore has three outcomes: the own property, a member
  inherited from the prototype (a function or an object: never \<^verbatim>\<open>undefined\<close>, always
  truthy), or \<^verbatim>\<open>undefined\<close>.
\<close>

datatype 'a js_prop = Absent | Own 'a | Inherited

definition object_prototype_keys :: "string list" where
  "object_prototype_keys =
     [''constructor'', ''__proto__'', ''hasOwnProperty'', ''isPrototypeOf'',
      ''propertyIsEnumerable'', ''toLocaleString'', ''toString'', ''valueOf'',
      ''__defineGetter__'', ''__defineSetter__'', ''__lookupGetter__'', ''__lookupSetter__'']"

definition js_lookup :: "(string \<rightharpoonup> 'a) \<Rightarrow> string \<Rightarrow> 'a js_prop" where
  "js_lookup obj k =
     (case obj k of
        Some v \<Rightarrow> Own v
      | None \<Rightarrow> if k \<in> set object_prototype_keys then Inherited else Absent)"

section \<open>Configuration types (utils/configuration)\<close>

datatype NvimMode = Mode_all | Mode_normal | Mode_visual | Mode_insert | Mode_replace
  | Mode_cmdline_normal | Mode_cmdline_insert | Mode_cmdline_replace | Mode_operator
  | Mode_visual_select | Mode_cmdline_hover | Mode_statusline_hover | Mode_statusline_drag
  | Mode_vsep_hover | Mode_vsep_drag | Mode_more | Mode_more_lastline | Mode_showmatch

text \<open>
  The keys are one-character strings. The backslash, the single quote and the double quote
  are written by their codes (\<open>0x5C\<close>, \<open>0x27\<close>, \<open>0x22\<close>).
\<close>

definition MappableKeys :: "string list" where
  "MappableKeys =
     [''1'', ''!'', ''2'', ''@'', ''3'', ''#'', ''4'', ''$'', ''5'', ''%'', ''6'', ''^'',
      ''7'', ''&'', ''8'', ''*'', ''9'', ''('', ''0'', '')'', ''-'', ''_'', ''='', ''+'',
      ''['', ''{'', '']'', ''}'', [CHR 0x5C], ''|'', '';'', '':'', [CHR 0x27], [CHR 0x22],
      '','', ''<'', ''.'', ''>'', ''/'', ''?'', ''`'', ''~'']"

text \<open>
  A layout is the list of its \<^verbatim>\<open>[key, shiftedKey]\<close> entries, as \<^verbatim>\<open>Object.entries\<close>
  enumerates them. \<open>defaultKeyPairs\<close> is listed as the source declares it (the runtime
  enumerates the digit keys first, in numeric order); its shifted values are pairwise
  distinct, so the maps built from it do not depend on the order.
\<close>

type_synonym MappableKeyPairs = "(string \<times> string) list"

definition defaultKeyPairs :: MappableKeyPairs where
  "defaultKeyPairs =
     [(''1'', ''!''), (''2'', ''@''), (''3'', ''#''), (''4'', ''$''), (''5'', ''%''),
      (''6'', ''^''), (''7'', ''&''), (''8'', ''*''), (''9'', ''(''), (''0'', '')''),
      (''-'', ''_''), (''='', ''+''), (''['', ''{''), ('']'', ''}''), ([CHR 0x5C], ''|''),
      ('';'', '':''), ([CHR 0x27], [CHR 0x22]), ('','', ''<''), (''.'', ''>''),
      (''/'', ''?''), (''`'', ''~'')]"

datatype alt_policy = Alphanum | All

text \<open>
  The fields of \<^verbatim>\<open>GlobalSettings\<close> that the key handler reads. \<^verbatim>\<open>ignoreKeys\<close> and
  \<^verbatim>\<open>keyboard_layouts\<close> are index types: an entry may be missing, and the code tests
  \<^verbatim>\<open>ignoreKeys[mode] !== undefined\<close>.
\<close>

record GlobalSettings =
  alt :: alt_policy
  ignoreKeys :: "NvimMode \<rightharpoonup> string list"
  keyboard_layouts :: "string \<rightharpoonup> MappableKeyPairs"
  shiftAlt :: bool
  shiftCtrl :: bool
  shiftAltCtrl :: bool
  cmdlineTimeout :: int

section \<open>KeyHandler: building the layout maps\<close>

text \<open>
  The state of \<^verbatim>\<open>buildShiftedKeyToKey\<close>: the settings object (the function assigns
  \<^verbatim>\<open>settings.keyboard_layouts.default\<close>), the closure variables \<^verbatim>\<open>keyToShiftedKey\<close> and
  \<^verbatim>\<open>shiftedKeyToKey\<close>, and the local object \<^verbatim>\<open>visited\<close>.
\<close>

record build_state =
  settings_of :: GlobalSettings
  keyToShiftedKey :: MappableKeyPairs
  shiftedKeyToKey :: "string \<rightharpoonup> string"
  visited :: "string \<rightharpoonup> bool"

definition truthy :: "bool js_prop \<Rightarrow> bool" where
  "truthy p = (case p of Absent \<Rightarrow> False | Own b \<Rightarrow> b | Inherited \<Rightarrow> True)"

text \<open>The two assignments at the end of the body of the first loop (source lines 41-42).\<close>

definition override :: "build_state \<Rightarrow> build_state" where
  "override st =
     st\<lparr>settings_of := (settings_of st)
            \<lparr>keyboard_layouts := (keyboard_layouts (settings_of st))(''default'' \<mapsto> defaultKeyPairs)\<rparr>,
        keyToShiftedKey := defaultKeyPairs\<rparr>"

text \<open>
  The first loop runs over the entries of the configured layout, which are enumerated once,
  before the loop: an override does not end it. The warnings written to the console are
  not part of the state.
\<close>

fun check_entries :: "(string \<times> string) list \<Rightarrow> build_state \<Rightarrow> build_state" where
  "check_entries [] st = st"
| "check_entries ((k, v) # rest) st =
     (if js_lookup (visited st) k = Absent \<or> js_lookup (visited st) v = Absent
      then check_entries rest (override st)
      else if truthy (js_lookup (visited st) v)
      then check_entries rest (override st)
      else if js_lookup (visited st) v = Own False
      then check_entries rest (st\<lparr>visited := (visited st)(v \<mapsto> True)\<rparr>)
      else check_entries rest (override st))"

fun invert_entries :: "(string \<times> string) list \<Rightarrow> (string \<rightharpoonup> string) \<Rightarrow> (string \<rightharpoonup> string)" where
  "invert_entries [] m = m"
| "invert_entries ((k, v) # rest) m = invert_entries rest (m(v \<mapsto> k))"

definition init_visited :: "string \<rightharpoonup> bool" where
  "init_visited = fold (\<lambda>v m. m(v \<mapsto> False)) MappableKeys Map.empty"

text \<open>
  \<^verbatim>\<open>Object.entries(undefined)\<close> raises a \<open>TypeError\<close>: that is what happens when the
  settings have no layout named \<^verbatim>\<open>default\<close>.
\<close>

definition buildShiftedKeyToKey :: "GlobalSettings \<Rightarrow> error + build_state" where
  "buildShiftedKeyToKey settings =
     (case keyboard_layouts settings ''default'' of
        None \<Rightarrow> Inl TypeError
      | Some layout \<Rightarrow>
          (let st = check_entries layout
                      \<lparr>settings_of = settings, keyToShiftedKey = layout,
                       shiftedKeyToKey = Map.empty, visited = init_visited\<rparr>
           in Inr (st\<lparr>shiftedKeyToKey := invert_entries (keyToShiftedKey st) (shiftedKeyToKey st)\<rparr>)))"

text \<open>
  The value of a key passed on to the translation: a string, or (when the lookup hits a
  member inherited from \<^verbatim>\<open>Object.prototype\<close>) an object that is not a string.
\<close>

datatype key_value = KeyStr string | KeyProto string

definition hasUnshiftedKey :: "(string \<rightharpoonup> string) \<Rightarrow> string \<Rightarrow> bool" where
  "hasUnshiftedKey m shifted_key = (js_lookup m shifted_key \<noteq> Absent)"

text \<open>The empty string is falsy: an own entry holding it is skipped by the \<^verbatim>\<open>if\<close>.\<close>

definition getUnshiftedKey :: "(string \<rightharpoonup> string) \<Rightarrow> string \<Rightarrow> key_value" where
  "getUnshiftedKey m shifted_key =
     (case js_lookup m shifted_key of
        Own k \<Rightarrow> if k \<noteq> [] then KeyStr k else KeyStr shifted_key
      | Inherited \<Rightarrow> KeyProto shifted_key
      | Absent \<Rightarrow> KeyStr shifted_key)"

text \<open>
  The checks of the first loop that let an entry pass without an override, with the
  updates of \<open>visited\<close> they make: \<open>accepted vis es\<close> holds when no entry of \<open>es\<close> triggers
  the override.
\<close>

fun accepted :: "(string \<rightharpoonup> bool) \<Rightarrow> (string \<times> string) list \<Rightarrow> bool" where
  "accepted vis [] = True"
| "accepted vis ((k, v) # rest) =
     (js_lookup vis k \<noteq> Absent \<and> js_lookup vis v = Own False \<and> accepted (vis(v \<mapsto> True)) rest)"

section \<open>KeyHandler: the keydown listener\<close>

record KeyboardEvent =
  key :: string
  ctrlKey :: bool
  altKey :: bool
  shiftKey :: bool
  metaKey :: bool
  isTrusted :: bool
  getModifierState :: "string \<Rightarrow> bool"

text \<open>
  The module \<^verbatim>\<open>utils/keys\<close> is not among the sources. Its three exports are parameters
  of the model: \<open>nonLiteralKeys k\<close> is the result of the read \<^verbatim>\<open>nonLiteralKeys[k]\<close>,
  \<open>translateKey\<close> and \<open>addModifier\<close> are functions on strings, as their call sites use
  them.
\<close>

record keys_utils =
  nonLiteralKeys :: "string \<Rightarrow> string js_prop"
  translateKey :: "string \<Rightarrow> string"
  addModifier :: "string \<Rightarrow> string \<Rightarrow> string"

text \<open>
  What the constructor leaves in the closure of the listener, and the field
  \<^verbatim>\<open>currentMode\<close>, which is \<^verbatim>\<open>undefined\<close> until \<^verbatim>\<open>setMode\<close> is called.
\<close>

record KeyHandler =
  closure :: build_state
  currentMode :: "NvimMode option"

definition new_KeyHandler :: "GlobalSettings \<Rightarrow> error + KeyHandler" where
  "new_KeyHandler settings =
     (case buildShiftedKeyToKey settings of
        Inl e \<Rightarrow> Inl e
      | Inr st \<Rightarrow> Inr \<lparr>closure = st, currentMode = None\<rparr>)"

definition setMode :: "KeyHandler \<Rightarrow> NvimMode \<Rightarrow> KeyHandler" where
  "setMode h s = h\<lparr>currentMode := Some s\<rparr>"

text \<open>What the listener does to its environment: the text passed to
  \<^verbatim>\<open>emit("input", text)\<close>, and the two calls on the event.\<close>

record effects =
  emitted :: "string option"
  defaultPrevented :: bool
  propagationStopped :: bool

definition no_effect :: effects where
  "no_effect = \<lparr>emitted = None, defaultPrevented = False, propagationStopped = False\<rparr>"

definition emit_input :: "string \<Rightarrow> effects" where
  "emit_input text = \<lparr>emitted = Some text, defaultPrevented = True, propagationStopped = True\<rparr>"

text \<open>The character class \<^verbatim>\<open>[a-zA-Z0-9]\<close>.\<close>

definition alphanumeric :: "char \<Rightarrow> bool" where
  "alphanumeric c =
     (let n = (of_char c :: nat)
      in (97 \<le> n \<and> n \<le> 122) \<or> (65 \<le> n \<and> n \<le> 90) \<or> (48 \<le> n \<and> n \<le> 57))"

definition specialKeys :: "(string \<times> string) list" where
  "specialKeys = [(''Alt'', ''A''), (''Control'', ''C''), (''OS'', ''D''), (''Meta'', ''D'')]"

text \<open>Source line 78: Alt on a key that is not alphanumeric, under the policy \<^verbatim>\<open>alphanum\<close>.\<close>

definition alt_escape :: "GlobalSettings \<Rightarrow> KeyboardEvent \<Rightarrow> bool" where
  "alt_escape settings evt =
     (altKey evt \<and> alt settings = Alphanum \<and> \<not> list_ex alphanumeric (key evt))"

text \<open>Source lines 84-93: the event is trusted and has a non-literal name or a modifier.\<close>

definition translatable :: "keys_utils \<Rightarrow> KeyboardEvent \<Rightarrow> bool" where
  "translatable u evt =
     (let hasModifier = (shiftKey evt \<or> altKey evt \<or> ctrlKey evt \<or> metaKey evt)
      in isTrusted evt
         \<and> (nonLiteralKeys u (key evt) \<noteq> Absent
            \<or> (list_all (\<lambda>(name, _). key evt \<noteq> name) (specialKeys @ [(''Shift'', ''S'')])
               \<and> hasModifier)))"

text \<open>Source lines 96-112: the modifiers to compose and the key to translate.\<close>

definition resolve_shift :: "build_state \<Rightarrow> KeyboardEvent \<Rightarrow> (string \<times> string) list \<times> key_value" where
  "resolve_shift st evt =
     (let settings = settings_of st;
          shiftAlt' = (shiftKey evt \<and> altKey evt \<and> \<not> ctrlKey evt);
          shiftCtrl' = (shiftKey evt \<and> \<not> altKey evt \<and> ctrlKey evt);
          shiftAltCtrl' = (shiftKey evt \<and> altKey evt \<and> ctrlKey evt)
      in if hasUnshiftedKey (shiftedKeyToKey st) (key evt)
            \<and> \<not> ((shiftAlt' \<and> shiftAlt settings)
                  \<or> (shiftCtrl' \<and> shiftCtrl settings)
                  \<or> (shiftAltCtrl' \<and> shiftAltCtrl settings))
         then (specialKeys, KeyStr (key evt))
         else (specialKeys @ [(''Shift'', ''S'')], getUnshiftedKey (shiftedKeyToKey st) (key evt)))"

text \<open>Source lines 113-118: the \<^verbatim>\<open>reduce\<close> over the modifiers.\<close>

definition compose :: "keys_utils \<Rightarrow> KeyboardEvent \<Rightarrow> (string \<times> string) list \<Rightarrow> string \<Rightarrow> string" where
  "compose u evt inputMods start =
     foldl (\<lambda>text (attr, m). if getModifierState evt attr then addModifier u m text else text)
       start inputMods"

text \<open>
  Source lines 120-126: the keys to leave to the browser. While \<^verbatim>\<open>currentMode\<close> is
  \<^verbatim>\<open>undefined\<close> the read \<^verbatim>\<open>ignoreKeys[this.currentMode]\<close> finds nothing, as the keys of
  \<^verbatim>\<open>ignoreKeys\<close> are modes.
\<close>

definition ignored_keys :: "KeyHandler \<Rightarrow> string list" where
  "ignored_keys h =
     (let ignoreKeys' = ignoreKeys (settings_of (closure h));
          keys = (case currentMode h of
                    None \<Rightarrow> []
                  | Some m \<Rightarrow> (case ignoreKeys' m of None \<Rightarrow> [] | Some l \<Rightarrow> l))
      in case ignoreKeys' Mode_all of None \<Rightarrow> keys | Some l \<Rightarrow> keys @ l)"

text \<open>Source lines 127-131.\<close>

definition deliver :: "KeyHandler \<Rightarrow> string \<Rightarrow> effects" where
  "deliver h text = (if text \<notin> set (ignored_keys h) then emit_input text else no_effect)"

definition keydown :: "keys_utils \<Rightarrow> KeyHandler \<Rightarrow> KeyboardEvent \<Rightarrow> error + effects" where
  "keydown u h evt =
     (if alt_escape (settings_of (closure h)) evt then Inr no_effect
      else if translatable u evt
      then (case resolve_shift (closure h) evt of
              (inputMods, KeyProto k) \<Rightarrow> Inl (NotAString k)
            | (inputMods, KeyStr inputKey) \<Rightarrow>
                Inr (deliver h (compose u evt inputMods (translateKey u inputKey))))
      else Inr no_effect)"

text \<open>
  Source line 10: the constructor reads \<^verbatim>\<open>settings.ignoreKeys\<close> once, into a constant that
  the listener uses. The record \<open>GlobalSettings\<close> holds a table there, as the declared type
  says. The value that \<^verbatim>\<open>mergeWithDefaults\<close> lets through may also be \<^verbatim>\<open>null\<close>, whose
  \<^verbatim>\<open>typeof\<close> is that of the default \<^verbatim>\<open>{}\<close>. \<open>keydown_captured\<close> is the listener with the
  captured value passed apart from the settings: on \<^verbatim>\<open>null\<close> the read
  \<^verbatim>\<open>ignoreKeys[this.currentMode]\<close> (source line 121) raises a \<open>TypeError\<close>; on a table the
  listener goes on as \<open>keydown\<close> does.
\<close>

datatype 'a nullable = Null | NotNull 'a

definition keydown_captured :: "keys_utils \<Rightarrow> (NvimMode \<rightharpoonup> string list) nullable \<Rightarrow> KeyHandler
    \<Rightarrow> KeyboardEvent \<Rightarrow> error + effects" where
  "keydown_captured u captured h evt =
     (if alt_escape (settings_of (closure h)) evt then Inr no_effect
      else if translatable u evt
      then (case resolve_shift (closure h) evt of
              (inputMods, KeyProto k) \<Rightarrow> Inl (NotAString k)
            | (inputMods, KeyStr inputKey) \<Rightarrow>
                (case captured of
                   Null \<Rightarrow> Inl TypeError
                 | NotNull table \<Rightarrow>
                     Inr (deliver
                            (h\<lparr>closure := (closure h)
                                 \<lparr>settings_of := (settings_of (closure h))\<lparr>ignoreKeys := table\<rparr>\<rparr>\<rparr>)
                            (compose u evt inputMods (translateKey u inputKey)))))
      else Inr no_effect)"

text \<open>
  The condition of the claims, in their words: one of the three exclusive combinations
  (Shift and Alt without Control, Shift and Control without Alt, all three) is active and
  its flag is set.
\<close>

definition flagged_combination :: "GlobalSettings \<Rightarrow> KeyboardEvent \<Rightarrow> bool" where
  "flagged_combination settings evt =
     ((shiftKey evt \<and> altKey evt \<and> \<not> ctrlKey evt \<and> shiftAlt settings)
      \<or> (shiftKey evt \<and> \<not> altKey evt \<and> ctrlKey evt \<and> shiftCtrl settings)
      \<or> (shiftKey evt \<and> altKey evt \<and> ctrlKey evt \<and> shiftAltCtrl settings))"

section \<open>Settings trees and the defaulting merge (mergeWithDefaults)\<close>

text \<open>
  The argument of \<^verbatim>\<open>mergeWithDefaults\<close> has type \<^verbatim>\<open>any\<close>: a JavaScript value. Objects
  are lists of properties in enumeration order. An array is an object too: besides its
  elements it can carry named properties, which is where an assignment
  \<^verbatim>\<open>obj[name] = value\<close> with a name that is not an index puts the value. Numbers are
  only stored and inspected with \<^verbatim>\<open>typeof\<close>; the merge computes nothing with them.
\<close>

datatype jsval = JUndefined | JNull | JBool bool | JNum int | JStr string
  | JArr "jsval list" "(string \<times> jsval) list"
  | JObj "(string \<times> jsval) list"

definition typeof :: "jsval \<Rightarrow> string" where
  "typeof v =
     (case v of
        JUndefined \<Rightarrow> ''undefined'' | JNull \<Rightarrow> ''object'' | JBool _ \<Rightarrow> ''boolean''
      | JNum _ \<Rightarrow> ''number'' | JStr _ \<Rightarrow> ''string'' | JArr _ _ \<Rightarrow> ''object''
      | JObj _ \<Rightarrow> ''object'')"

definition isArray :: "jsval \<Rightarrow> bool" where
  "isArray v = (case v of JArr _ _ \<Rightarrow> True | _ \<Rightarrow> False)"

text \<open>
  The read \<^verbatim>\<open>obj[name]\<close> and the assignment \<^verbatim>\<open>obj[name] = value\<close>, for the names the
  merge uses (none of them is an array index or a member of a prototype). Reading a
  property of \<^verbatim>\<open>undefined\<close> or \<^verbatim>\<open>null\<close> raises a \<open>TypeError\<close>; so does, in the strict
  code of a module, creating a property on a number, a string or a boolean. An assignment
  to an existing property keeps its place in the enumeration; a new property goes last.
\<close>

definition get_prop :: "jsval \<Rightarrow> string \<Rightarrow> error + jsval" where
  "get_prop obj name =
     (case obj of
        JUndefined \<Rightarrow> Inl TypeError
      | JNull \<Rightarrow> Inl TypeError
      | JObj ps \<Rightarrow> Inr (case map_of ps name of None \<Rightarrow> JUndefined | Some v \<Rightarrow> v)
      | JArr es ps \<Rightarrow> Inr (case map_of ps name of None \<Rightarrow> JUndefined | Some v \<Rightarrow> v)
      | _ \<Rightarrow> Inr JUndefined)"

definition set_prop :: "jsval \<Rightarrow> string \<Rightarrow> jsval \<Rightarrow> error + jsval" where
  "set_prop obj name v =
     (case obj of
        JObj ps \<Rightarrow> Inr (JObj (AList.update name v ps))
      | JArr es ps \<Rightarrow> Inr (JArr es (AList.update name v ps))
      | _ \<Rightarrow> Inl TypeError)"

definition makeDefaults :: "jsval \<Rightarrow> string \<Rightarrow> jsval \<Rightarrow> error + jsval" where
  "makeDefaults obj name v =
     (case get_prop obj name of
        Inl e \<Rightarrow> Inl e
      | Inr cur \<Rightarrow>
          if cur = JUndefined then set_prop obj name v
          else if typeof cur \<noteq> typeof v \<or> isArray cur \<noteq> isArray v then set_prop obj name v
          else Inr obj)"

text \<open>
  A call \<^verbatim>\<open>makeDefaults(settings.a.b, name, value)\<close> changes the object that
  \<^verbatim>\<open>settings.a.b\<close> refers to, in place. In the tree this is a change below the path
  \<open>[a, b]\<close>: \<open>at_path\<close> reads along the path, applies the change and stores the changed
  objects back. (\<open>makeDefaults\<close> fails on everything that is not an object, so only
  objects are ever stored back.)
\<close>

fun at_path :: "string list \<Rightarrow> (jsval \<Rightarrow> error + jsval) \<Rightarrow> jsval \<Rightarrow> error + jsval" where
  "at_path [] f obj = f obj"
| "at_path (name # path) f obj =
     (case get_prop obj name of
        Inl e \<Rightarrow> Inl e
      | Inr child \<Rightarrow>
          (case at_path path f child of
             Inl e \<Rightarrow> Inl e
           | Inr child' \<Rightarrow> set_prop obj name child'))"

text \<open>
  The body of \<^verbatim>\<open>mergeWithDefaults\<close> is a sequence of calls of \<^verbatim>\<open>makeDefaults\<close>. A call
  is written \<open>(path, name, value)\<close>: the path from \<^verbatim>\<open>settings\<close> to the object, the name
  and the default.
\<close>

type_synonym default_call = "string list \<times> string \<times> jsval"

fun run_calls :: "default_call list \<Rightarrow> jsval \<Rightarrow> error + jsval" where
  "run_calls [] settings = Inr settings"
| "run_calls ((path, name, v) # calls) settings =
     (case at_path path (\<lambda>obj. makeDefaults obj name v) settings of
        Inl e \<Rightarrow> Inl e
      | Inr settings' \<Rightarrow> run_calls calls settings')"

definition makeDefaultLocalSetting :: "string \<Rightarrow> (string \<times> jsval) list \<Rightarrow> default_call list" where
  "makeDefaultLocalSetting site obj =
     ([''localSettings''], site, JObj [])
     # map (\<lambda>(key, v). ([''localSettings'', site], key, v)) obj"

definition defaultKeyPairs_value :: jsval where
  "defaultKeyPairs_value = JObj (map (\<lambda>(k, v). (k, JStr v)) defaultKeyPairs)"

definition default_site :: "(string \<times> jsval) list" where
  "default_site =
     [(''cmdline'', JStr ''firenvim''),
      (''content'', JStr ''text''),
      (''priority'', JNum 0),
      (''renderer'', JStr ''canvas''),
      (''selector'', JStr (''textarea:not([readonly], [aria-readonly]), div[role=''
                           @ [CHR 0x22] @ ''textbox'' @ [CHR 0x22] @ '']'')),
      (''takeover'', JStr ''always''),
      (''filename'', JStr ''{hostname%32}_{pathname%32}_{selector%32}_{timestamp%32}.{extension}'')]"

definition default_calls :: "string \<Rightarrow> default_call list" where
  "default_calls os =
     [([], ''globalSettings'', JObj []),
      ([''globalSettings''], ''<C-n>'', JStr ''default''),
      ([''globalSettings''], ''<C-t>'', JStr ''default''),
      ([''globalSettings''], ''<C-w>'', JStr ''default''),
      ([''globalSettings''], ''<CS-n>'', JStr ''default''),
      ([''globalSettings''], ''<CS-t>'', JStr ''default''),
      ([''globalSettings''], ''<CS-w>'', JStr ''default''),
      ([''globalSettings''], ''ignoreKeys'', JObj []),
      ([''globalSettings''], ''keyboard_layouts'', JObj []),
      ([''globalSettings'', ''keyboard_layouts''], ''default'', defaultKeyPairs_value),
      ([''globalSettings''], ''shiftAlt'', JBool False),
      ([''globalSettings''], ''shiftCtrl'', JBool True),
      ([''globalSettings''], ''shiftAltCtrl'', JBool True),
      ([''globalSettings''], ''cmdlineTimeout'', JNum 3000),
      ([''globalSettings''], ''alt'', if os = ''mac'' then JStr ''alphanum'' else JStr ''all''),
      ([], ''localSettings'', JObj [])]
     @ makeDefaultLocalSetting ''.*'' default_site"

definition mergeWithDefaults :: "string \<Rightarrow> jsval \<Rightarrow> error + jsval" where
  "mergeWithDefaults os settings =
     run_calls (default_calls os) (if settings = JUndefined then JObj [] else settings)"

text \<open>
  Reading a tree along a path of own properties (\<open>None\<close>: there is no such property), and
  the shape that \<^verbatim>\<open>makeDefaults\<close> compares: the \<^verbatim>\<open>typeof\<close> and the array-ness.
\<close>

definition props_of :: "jsval \<Rightarrow> (string \<times> jsval) list option" where
  "props_of v = (case v of JObj ps \<Rightarrow> Some ps | JArr es ps \<Rightarrow> Some ps | _ \<Rightarrow> None)"

fun lookup_path :: "string list \<Rightarrow> jsval \<Rightarrow> jsval option" where
  "lookup_path [] v = Some v"
| "lookup_path (name # path) v =
     (case props_of v of
        None \<Rightarrow> None
      | Some ps \<Rightarrow> (case map_of ps name of None \<Rightarrow> None | Some c \<Rightarrow> lookup_path path c))"

definition same_shape :: "jsval \<Rightarrow> jsval \<Rightarrow> bool" where
  "same_shape v d = (v \<noteq> JUndefined \<and> typeof v = typeof d \<and> isArray v = isArray d)"

section \<open>Resolving the configuration of a site (getConfForUrl, getGlobalConf)\<close>

datatype cmdline_kind = Cmdline_neovim | Cmdline_firenvim | Cmdline_none
datatype content_kind = Content_html | Content_text
datatype renderer_kind = Renderer_html | Renderer_canvas
datatype takeover_kind = Takeover_always | Takeover_once | Takeover_empty
  | Takeover_nonempty | Takeover_never

text \<open>
  An entry of the site table sets some of the fields of \<^verbatim>\<open>ISiteConfig\<close>; a field it
  does not set is \<open>None\<close>.
\<close>

record ISiteConfig =
  cmdline :: "cmdline_kind option"
  content :: "content_kind option"
  priority :: "int option"
  renderer :: "renderer_kind option"
  selector :: "string option"
  takeover :: "takeover_kind option"
  filename :: "string option"

text \<open>
  The module variable \<^verbatim>\<open>conf\<close> starts as \<^verbatim>\<open>undefined\<close> (\<open>None\<close>) and is set when the
  storage has answered; the stored object may lack either of its two keys.
\<close>

record IConfig =
  globalSettings :: "GlobalSettings option"
  localSettings :: "(string \<times> ISiteConfig) list option"

definition getGlobalConf :: "IConfig option \<Rightarrow> error + GlobalSettings option" where
  "getGlobalConf conf =
     (case conf of
        None \<Rightarrow> Inl (Error ''getGlobalConf called before config was ready'')
      | Some c \<Rightarrow> Inr (globalSettings c))"

definition or1 :: "int option \<Rightarrow> int" where
  "or1 val = (case val of None \<Rightarrow> 1 | Some n \<Rightarrow> n)"

text \<open>\<^verbatim>\<open>Object.assign(acc, cur)\<close>: every field that \<open>cur\<close> sets replaces the one of \<open>acc\<close>.\<close>

definition or_else :: "'a option \<Rightarrow> 'a option \<Rightarrow> 'a option" where
  "or_else new old = (case new of None \<Rightarrow> old | Some v \<Rightarrow> Some v)"

definition assign :: "ISiteConfig \<Rightarrow> ISiteConfig \<Rightarrow> ISiteConfig" where
  "assign acc cur =
     \<lparr>cmdline = or_else (cmdline cur) (cmdline acc),
      content = or_else (content cur) (content acc),
      priority = or_else (priority cur) (priority acc),
      renderer = or_else (renderer cur) (renderer acc),
      selector = or_else (selector cur) (selector acc),
      takeover = or_else (takeover cur) (takeover acc),
      filename = or_else (filename cur) (filename acc)\<rparr>"

definition empty_site :: ISiteConfig where
  "empty_site =
     \<lparr>cmdline = None, content = None, priority = None, renderer = None, selector = None,
      takeover = None, filename = None\<rparr>"

text \<open>
  The regular expressions are the runtime's. \<open>RegExp pat\<close> stands for
  \<^verbatim>\<open>new RegExp(pat)\<close>: a \<open>SyntaxError\<close> for an ill-formed pattern, and otherwise the
  predicate \<^verbatim>\<open>test\<close> of the compiled expression. The filter stops at the first pattern
  that does not compile.
\<close>

type_synonym regexp = "string \<Rightarrow> error + (string \<Rightarrow> bool)"

fun filter_matching :: "regexp \<Rightarrow> string \<Rightarrow> (string \<times> ISiteConfig) list
    \<Rightarrow> error + (string \<times> ISiteConfig) list" where
  "filter_matching RegExp url [] = Inr []"
| "filter_matching RegExp url ((pat, c) # rest) =
     (case RegExp pat of
        Inl e \<Rightarrow> Inl e
      | Inr test \<Rightarrow>
          (case filter_matching RegExp url rest of
             Inl e \<Rightarrow> Inl e
           | Inr ms \<Rightarrow> Inr (if test url then (pat, c) # ms else ms)))"

text \<open>
  \<^verbatim>\<open>Array.prototype.sort\<close> is stable, and the comparison function is the difference of
  two numbers: the result is the stable sort by \<open>or1\<close> of the priority, which is what
  \<open>sort_key\<close> computes.
\<close>

definition settings_undefined_message :: string where
  "settings_undefined_message =
     ''Error: your settings are undefined. Try reloading the page. If this error persists, try the troubleshooting guide: https://github.com/glacambre/firenvim/blob/master/TROUBLESHOOTING.md''"

definition getConfForUrl :: "regexp \<Rightarrow> IConfig option \<Rightarrow> string \<Rightarrow> error + ISiteConfig" where
  "getConfForUrl RegExp conf url =
     (case conf of
        None \<Rightarrow> Inl TypeError
      | Some c \<Rightarrow>
          (case localSettings c of
             None \<Rightarrow> Inl (Error settings_undefined_message)
           | Some table \<Rightarrow>
               (case filter_matching RegExp url table of
                  Inl e \<Rightarrow> Inl e
                | Inr ms \<Rightarrow>
                    Inr (foldl (\<lambda>acc (_, cur). assign acc cur) empty_site
                           (sort_key (\<lambda>e. or1 (priority (snd e))) ms)))))"

text \<open>
  The resolution in the words of the specification: a field of the result is the field of
  the last entry, in the order of the fold, that sets it, and is unset when no entry
  sets it.
\<close>

definition resolved_field :: "(ISiteConfig \<Rightarrow> 'a option) \<Rightarrow> ISiteConfig list \<Rightarrow> 'a option" where
  "resolved_field f cs = (case filter (\<lambda>c. f c \<noteq> None) cs of [] \<Rightarrow> None | c # cs' \<Rightarrow> f (last (c # cs')))"

section \<open>Concrete instances for the examples\<close>

text \<open>
  The regular expressions of a fragment, for the examples: literal characters, \<^verbatim>\<open>.\<close> (any
  character but a line break), a backslash before a syntax character or a slash, and the
  postfix \<^verbatim>\<open>*\<close>. \<open>fragment_test pat\<close> is the predicate \<^verbatim>\<open>test\<close> of \<^verbatim>\<open>new RegExp(pat)\<close>
  for a pattern of the fragment (a match is looked for at any position), and \<open>None\<close> for
  every other pattern: about those nothing is said, they are the runtime's business.
  Strings are lists of code units.
\<close>

datatype rx_atom = Lit char | AnyChar

datatype rx_token = TAtom rx_atom | TStar

definition special_character :: "char \<Rightarrow> bool" where
  "special_character c = (c \<in> set (''^$.*+?()[]{}|'' @ [CHR 0x5C]))"

fun tokens :: "string \<Rightarrow> rx_token list option" where
  "tokens [] = Some []"
| "tokens (c # cs) =
     (if c = CHR 0x5C
      then (case cs of
              [] \<Rightarrow> None
            | d # ds \<Rightarrow>
                if special_character d \<or> d = CHR ''/''
                then map_option (Cons (TAtom (Lit d))) (tokens ds)
                else None)
      else if c = CHR ''.'' then map_option (Cons (TAtom AnyChar)) (tokens cs)
      else if c = CHR ''*'' then map_option (Cons TStar) (tokens cs)
      else if special_character c then None
      else map_option (Cons (TAtom (Lit c))) (tokens cs))"

fun quantify :: "rx_token list \<Rightarrow> (rx_atom \<times> bool) list option" where
  "quantify [] = Some []"
| "quantify (TStar # ts) = None"
| "quantify (TAtom a # TStar # ts) = map_option (Cons (a, True)) (quantify ts)"
| "quantify (TAtom a # ts) = map_option (Cons (a, False)) (quantify ts)"

fun atom_matches :: "rx_atom \<Rightarrow> char \<Rightarrow> bool" where
  "atom_matches (Lit d) c = (c = d)"
| "atom_matches AnyChar c = (c \<noteq> CHR 0x0A \<and> c \<noteq> CHR 0x0D)"

fun match_here :: "(rx_atom \<times> bool) list \<Rightarrow> string \<Rightarrow> bool" where
  "match_here [] s = True"
| "match_here ((a, False) # r) [] = False"
| "match_here ((a, False) # r) (c # cs) = (atom_matches a c \<and> match_here r cs)"
| "match_here ((a, True) # r) [] = match_here r []"
| "match_here ((a, True) # r) (c # cs) =
     (match_here r (c # cs) \<or> (atom_matches a c \<and> match_here ((a, True) # r) cs))"

fun match_anywhere :: "(rx_atom \<times> bool) list \<Rightarrow> string \<Rightarrow> bool" where
  "match_anywhere r [] = match_here r []"
| "match_anywhere r (c # cs) = (match_here r (c # cs) \<or> match_anywhere r cs)"

definition fragment_test :: "string \<Rightarrow> (string \<Rightarrow> bool) option" where
  "fragment_test pat = map_option match_anywhere (Option.bind (tokens pat) quantify)"

text \<open>
  An engine follows the fragment on a pattern when the pattern is in the fragment and the
  engine compiles it to the predicate of the fragment. The runtime's \<^verbatim>\<open>RegExp\<close> does so on
  every pattern of the fragment.
\<close>

definition follows_fragment :: "regexp \<Rightarrow> string \<Rightarrow> bool" where
  "follows_fragment RegExp pat =
     (case fragment_test pat of None \<Rightarrow> False | Some test \<Rightarrow> RegExp pat = Inr test)"

text \<open>
  Modelled from the spec: the exports of \<^verbatim>\<open>utils/keys\<close> (\<^verbatim>\<open>nonLiteralKeys\<close>,
  \<^verbatim>\<open>translateKey\<close>, \<^verbatim>\<open>addModifier\<close>), which are not among the sources. The
  specification describes a fixed table from non-literal key names (Escape, Enter, the
  arrow keys) to their notation, and the composition of a modifier as a bracketed prefix:
  base \<^verbatim>\<open>a\<close> with Control gives \<^verbatim>\<open><C-a>\<close>, and a chain such as \<^verbatim>\<open><C-A-Left>\<close>. These
  instances serve the concrete examples; the general theorems hold for all exports.
\<close>

definition spec_nonLiteralKeys :: "(string \<times> string) list" where
  "spec_nonLiteralKeys =
     [(''Escape'', ''<Esc>''), (''Enter'', ''<CR>''), (''ArrowLeft'', ''<Left>''),
      (''ArrowRight'', ''<Right>''), (''ArrowUp'', ''<Up>''), (''ArrowDown'', ''<Down>'')]"

text \<open>
  Modelled from the spec: \<^verbatim>\<open>translateKey\<close> of \<^verbatim>\<open>utils/keys\<close> (not among the sources), the
  lookup in the fixed translation table, a key without an entry standing for itself.
\<close>

definition spec_translateKey :: "string \<Rightarrow> string" where
  "spec_translateKey k = (case map_of spec_nonLiteralKeys k of None \<Rightarrow> k | Some v \<Rightarrow> v)"

text \<open>
  Modelled from the spec: \<^verbatim>\<open>addModifier\<close> of \<^verbatim>\<open>utils/keys\<close> (not among the sources), the
  modifier as a bracketed prefix, the brackets of an already bracketed text being merged.
\<close>

definition unbracket :: "string \<Rightarrow> string" where
  "unbracket text =
     (if 2 \<le> length text \<and> hd text = CHR ''<'' \<and> last text = CHR ''>''
      then butlast (tl text) else text)"

definition spec_addModifier :: "string \<Rightarrow> string \<Rightarrow> string" where
  "spec_addModifier m text = ''<'' @ m @ ''-'' @ unbracket text @ ''>''"

text \<open>
  Modelled from the spec: the three exports of \<^verbatim>\<open>utils/keys\<close> (not among the sources)
  together.
\<close>

definition spec_keys :: keys_utils where
  "spec_keys =
     \<lparr>nonLiteralKeys = js_lookup (map_of spec_nonLiteralKeys),
      translateKey = spec_translateKey,
      addModifier = spec_addModifier\<rparr>"

text \<open>The settings that the defaulting merge produces from an empty configuration.\<close>

definition example_settings :: GlobalSettings where
  "example_settings =
     \<lparr>alt = All, ignoreKeys = Map.empty,
      keyboard_layouts = [''default'' \<mapsto> defaultKeyPairs],
      shiftAlt = False, shiftCtrl = True, shiftAltCtrl = True, cmdlineTimeout = 3000\<rparr>"

definition example_event :: "string \<Rightarrow> string list \<Rightarrow> KeyboardEvent" where
  "example_event k mods =
     \<lparr>key = k, ctrlKey = (''Control'' \<in> set mods), altKey = (''Alt'' \<in> set mods),
      shiftKey = (''Shift'' \<in> set mods), metaKey = (''Meta'' \<in> set mods),
      isTrusted = True, getModifierState = (\<lambda>m. m \<in> set mods)\<rparr>"

section \<open>Scenarios and notions used in the statements\<close>

text \<open>
  A key press on a fresh handler: the constructor runs on the settings, the mode is set
  (or left \<^verbatim>\<open>undefined\<close>), and the listener receives the event.
\<close>

definition press :: "keys_utils \<Rightarrow> GlobalSettings \<Rightarrow> NvimMode option \<Rightarrow> KeyboardEvent \<Rightarrow> error + effects" where
  "press u settings mode evt =
     (case new_KeyHandler settings of
        Inl e \<Rightarrow> Inl e
      | Inr h \<Rightarrow> keydown u (h\<lparr>currentMode := mode\<rparr>) evt)"

text \<open>
  The suppression list in the words of the specification: the list of the current mode
  (empty if there is none), followed by the list of the wildcard \<^verbatim>\<open>all\<close>.
\<close>

definition suppression_list :: "GlobalSettings \<Rightarrow> NvimMode option \<Rightarrow> string list" where
  "suppression_list settings mode =
     (case mode of None \<Rightarrow> [] | Some m \<Rightarrow> (case ignoreKeys settings m of None \<Rightarrow> [] | Some l \<Rightarrow> l))
     @ (case ignoreKeys settings Mode_all of None \<Rightarrow> [] | Some l \<Rightarrow> l)"

text \<open>
  Two handlers for the examples: the closure that the constructor leaves for the default
  layout, in mode \<^verbatim>\<open>normal\<close>, and the same with two ignore lists.
\<close>

definition example_handler :: KeyHandler where
  "example_handler =
     \<lparr>closure = \<lparr>settings_of = example_settings, keyToShiftedKey = defaultKeyPairs,
                 shiftedKeyToKey = invert_entries defaultKeyPairs Map.empty,
                 visited = init_visited\<rparr>,
      currentMode = Some Mode_normal\<rparr>"

definition example_handler_ignoring :: KeyHandler where
  "example_handler_ignoring =
     example_handler\<lparr>closure := (closure example_handler)
        \<lparr>settings_of := example_settings
           \<lparr>ignoreKeys := [Mode_normal \<mapsto> [''<C-@>''], Mode_all \<mapsto> [''<C-1>'']]\<rparr>\<rparr>\<rparr>"

text \<open>
  The notions of the resolution in the words of the specification: the key of an entry,
  interpreted as a regular expression, matches the URL; and the priority by which the
  matches are sorted is the priority of the entry, a missing priority counting as 1.
\<close>

definition matches :: "regexp \<Rightarrow> string \<Rightarrow> string \<Rightarrow> bool" where
  "matches RegExp pat url = (case RegExp pat of Inl e \<Rightarrow> False | Inr test \<Rightarrow> test url)"

definition effective_priority :: "ISiteConfig \<Rightarrow> int" where
  "effective_priority c = (case priority c of None \<Rightarrow> 1 | Some n \<Rightarrow> n)"

text \<open>
  Site tables for the examples: the pattern \<^verbatim>\<open>example\.com\<close>, an entry that sets a
  priority (or none) and a renderer, the stored configuration that holds a table, and the
  renderer that a URL resolves to.
\<close>

definition example_com_pattern :: string where
  "example_com_pattern = ''example'' @ [CHR 0x5C] @ ''.com''"

definition site_entry :: "int option \<Rightarrow> renderer_kind \<Rightarrow> ISiteConfig" where
  "site_entry p r = empty_site\<lparr>priority := p, renderer := Some r\<rparr>"

definition conf_of_table :: "(string \<times> ISiteConfig) list \<Rightarrow> IConfig" where
  "conf_of_table table = \<lparr>globalSettings = None, localSettings = Some table\<rparr>"

definition resolve_renderer :: "regexp \<Rightarrow> (string \<times> ISiteConfig) list \<Rightarrow> string
    \<Rightarrow> error + renderer_kind option" where
  "resolve_renderer RegExp table url =
     (case getConfForUrl RegExp (Some (conf_of_table table)) url of
        Inl e \<Rightarrow> Inl e
      | Inr c \<Rightarrow> Inr (renderer c))"

text \<open>
  Notions for the statements about the defaulting merge. The target of a call is the path
  of the field it may write. A call conforms to a tree when the field is there, along own
  properties, with the shape of the default: then \<^verbatim>\<open>makeDefaults\<close> leaves it alone. A
  list of calls is ordered when no call targets a field at or above the target of an
  earlier call.
\<close>

fun call_target :: "default_call \<Rightarrow> string list" where
  "call_target (path, name, v) = path @ [name]"

definition conforms :: "default_call \<Rightarrow> jsval \<Rightarrow> bool" where
  "conforms c settings =
     (case lookup_path (call_target c) settings of None \<Rightarrow> False | Some v \<Rightarrow> same_shape v (snd (snd c)))"

fun ordered :: "default_call list \<Rightarrow> bool" where
  "ordered [] = True"
| "ordered (c # cs) = (list_all (\<lambda>c'. \<not> prefix (call_target c') (call_target c)) cs \<and> ordered cs)"

text \<open>
  The fields that the calls name inside the object at a path, and the condition that every
  named field on the way to \<open>q\<close>, \<open>q\<close> included, has the shape of its default in the tree.
\<close>

definition names_at :: "string \<Rightarrow> string list \<Rightarrow> string list" where
  "names_at os path = map (\<lambda>c. fst (snd c)) (filter (\<lambda>c. fst c = path) (default_calls os))"

definition shapes_match :: "string \<Rightarrow> string list \<Rightarrow> jsval \<Rightarrow> bool" where
  "shapes_match os q settings =
     list_all (\<lambda>c. prefix (call_target c) q \<longrightarrow> conforms c settings) (default_calls os)"

text \<open>
  A user tree for the examples: a field of matching shape (\<^verbatim>\<open>alt\<close>), a field of the
  wrong type (\<^verbatim>\<open>cmdlineTimeout\<close>), keys that the defaults do not name, and a site entry.
\<close>

definition example_tree :: jsval where
  "example_tree =
     JObj [(''globalSettings'', JObj [(''alt'', JStr ''all''), (''cmdlineTimeout'', JStr ''soon''),
                                     (''mine'', JNum 3)]),
           (''version'', JNull),
           (''localSettings'', JObj [(''github.com'', JObj [(''priority'', JNum 2)])])]"

text \<open>
  A user configuration whose \<^verbatim>\<open>ignoreKeys\<close> is \<^verbatim>\<open>null\<close>.
\<close>

definition null_ignoreKeys_tree :: jsval where
  "null_ignoreKeys_tree = JObj [(''globalSettings'', JObj [(''ignoreKeys'', JNull)])]"

section \<open>Properties of the layout builder\<close>

lemma init_visited_apply:
  "init_visited k = (if k \<in> set MappableKeys then Some False else None)"
  unfolding init_visited_def MappableKeys_def by simp

lemma MappableKeys_not_inherited: "k \<in> set MappableKeys \<Longrightarrow> k \<notin> set object_prototype_keys"
  unfolding MappableKeys_def object_prototype_keys_def by auto

lemma override_idem [simp]: "keyToShiftedKey (override st) = defaultKeyPairs"
  "visited (override st) = visited st" "shiftedKeyToKey (override st) = shiftedKeyToKey st"
  by (simp_all add: override_def)

lemma check_entries_default_stays:
  "keyToShiftedKey st = defaultKeyPairs \<Longrightarrow> keyToShiftedKey (check_entries es st) = defaultKeyPairs"
  by (induction es st rule: check_entries.induct) simp_all

lemma check_entries_keyToShiftedKey:
  "keyToShiftedKey (check_entries es st) =
     (if accepted (visited st) es then keyToShiftedKey st else defaultKeyPairs)"
proof (induction es arbitrary: st)
  case Nil
  show ?case by simp
next
  case (Cons e rest)
  obtain k v where e: "e = (k, v)" by (cases e)
  show ?case
  proof (cases "js_lookup (visited st) k \<noteq> Absent \<and> js_lookup (visited st) v = Own False")
    case True
    then have step: "check_entries (e # rest) st = check_entries rest (st\<lparr>visited := (visited st)(v \<mapsto> True)\<rparr>)"
      by (simp add: e truthy_def)
    have vis: "visited (st\<lparr>visited := (visited st)(v \<mapsto> True)\<rparr>) = (visited st)(v \<mapsto> True)"
      and k2: "keyToShiftedKey (st\<lparr>visited := (visited st)(v \<mapsto> True)\<rparr>) = keyToShiftedKey st"
      by simp_all
    have acc: "accepted (visited st) (e # rest) = accepted ((visited st)(v \<mapsto> True)) rest"
      using True unfolding e accepted.simps by blast
    show ?thesis
      unfolding step acc Cons.IH vis k2 by (rule refl)
  next
    case False
    then show ?thesis
      by (auto simp: e check_entries_default_stays)
  qed
qed

lemma check_entries_shiftedKeyToKey [simp]:
  "shiftedKeyToKey (check_entries es st) = shiftedKeyToKey st"
  by (induction es st rule: check_entries.induct) simp_all

lemma accepted_iff:
  assumes "dom vis = set MappableKeys"
  shows "accepted vis es \<longleftrightarrow>
           (\<forall>(k, v) \<in> set es. (k \<in> set MappableKeys \<or> k \<in> set object_prototype_keys) \<and> vis v = Some False)
           \<and> distinct (map snd es)"
  using assms
proof (induction es arbitrary: vis)
  case Nil
  show ?case by simp
next
  case (Cons e es)
  obtain k v where e: "e = (k, v)" by (cases e)
  have lk: "js_lookup vis k \<noteq> Absent \<longleftrightarrow> k \<in> set MappableKeys \<or> k \<in> set object_prototype_keys"
    using Cons.prems by (auto simp: js_lookup_def split: option.splits)
  have lv: "js_lookup vis v = Own False \<longleftrightarrow> vis v = Some False"
    by (auto simp: js_lookup_def split: option.splits)
  show ?case
  proof (cases "vis v = Some False")
    case True
    then have d: "dom (vis(v \<mapsto> True)) = set MappableKeys"
      using Cons.prems by auto
    have "accepted (vis(v \<mapsto> True)) es \<longleftrightarrow>
            (\<forall>(k, v') \<in> set es. (k \<in> set MappableKeys \<or> k \<in> set object_prototype_keys) \<and> (vis(v \<mapsto> True)) v' = Some False)
            \<and> distinct (map snd es)"
      by (rule Cons.IH [OF d])
    also have "\<dots> \<longleftrightarrow>
            (\<forall>(k, v') \<in> set es. (k \<in> set MappableKeys \<or> k \<in> set object_prototype_keys) \<and> vis v' = Some False)
            \<and> v \<notin> snd ` set es \<and> distinct (map snd es)"
      by (auto simp: rev_image_eqI)
    finally show ?thesis using True lk lv e by auto
  next
    case False
    then show ?thesis using lv e by auto
  qed
qed

lemma dom_init_visited: "dom init_visited = set MappableKeys"
  by (auto simp: init_visited_apply split: if_splits)

lemma accepted_init:
  "accepted init_visited es \<longleftrightarrow>
     (\<forall>(k, v) \<in> set es. (k \<in> set MappableKeys \<or> k \<in> set object_prototype_keys) \<and> v \<in> set MappableKeys)
     \<and> distinct (map snd es)"
  by (auto simp: accepted_iff [OF dom_init_visited] init_visited_apply)

lemma invert_entries_apply:
  "invert_entries es m x = (case map_of (rev (map (\<lambda>(k, v). (v, k)) es)) x of Some k \<Rightarrow> Some k | None \<Rightarrow> m x)"
proof (induction es arbitrary: m)
  case Nil
  show ?case by (simp split: option.splits)
next
  case (Cons e es)
  obtain k v where e: "e = (k, v)" by (cases e)
  have "invert_entries (e # es) m x = invert_entries es (m(v \<mapsto> k)) x"
    unfolding e invert_entries.simps by (rule refl)
  also have "\<dots> = (case map_of (rev (map (\<lambda>(k, v). (v, k)) es)) x of Some k \<Rightarrow> Some k | None \<Rightarrow> (m(v \<mapsto> k)) x)"
    by (rule Cons.IH)
  also have "\<dots> = (case map_of (rev (map (\<lambda>(k, v). (v, k)) (e # es))) x of Some k \<Rightarrow> Some k | None \<Rightarrow> m x)"
    by (auto simp: e map_add_def split: option.splits)
  finally show ?case .
qed

lemma invert_entries_distinct:
  "distinct (map snd es) \<Longrightarrow> (k, v) \<in> set es \<Longrightarrow> invert_entries es m v = Some k"
proof (induction es arbitrary: m)
  case Nil
  then show ?case by simp
next
  case (Cons e rest)
  obtain k' v' where e: "e = (k', v')" by (cases e)
  show ?case
  proof (cases "(k, v) = (k', v')")
    case True
    have "v' \<notin> snd ` set rest" using Cons.prems e by simp
    then have "map_of (rev (map (\<lambda>(k, v). (v, k)) rest)) v' = None"
      by (force simp: map_of_eq_None_iff)
    then show ?thesis using True e by (simp add: invert_entries_apply)
  next
    case False
    then have "distinct (map snd rest)" "(k, v) \<in> set rest"
      using Cons.prems e by auto
    then have "invert_entries rest (m(v' \<mapsto> k')) v = Some k"
      by (rule Cons.IH)
    then show ?thesis
      unfolding e invert_entries.simps .
  qed
qed

lemma distinct_default_shifted: "distinct (map snd defaultKeyPairs)"
  unfolding defaultKeyPairs_def by simp

lemma check_entries_layout_stays:
  "keyboard_layouts (settings_of st) ''default'' = Some defaultKeyPairs \<Longrightarrow>
   keyboard_layouts (settings_of (check_entries es st)) ''default'' = Some defaultKeyPairs"
  by (induction es st rule: check_entries.induct) (simp_all add: override_def)

lemma check_entries_layout:
  "keyboard_layouts (settings_of (check_entries es st)) ''default'' =
     (if accepted (visited st) es then keyboard_layouts (settings_of st) ''default''
      else Some defaultKeyPairs)"
proof (induction es arbitrary: st)
  case Nil
  show ?case by simp
next
  case (Cons e rest)
  obtain k v where e: "e = (k, v)" by (cases e)
  show ?case
  proof (cases "js_lookup (visited st) k \<noteq> Absent \<and> js_lookup (visited st) v = Own False")
    case True
    then have step: "check_entries (e # rest) st = check_entries rest (st\<lparr>visited := (visited st)(v \<mapsto> True)\<rparr>)"
      by (simp add: e truthy_def)
    have vis: "visited (st\<lparr>visited := (visited st)(v \<mapsto> True)\<rparr>) = (visited st)(v \<mapsto> True)"
      and k2: "settings_of (st\<lparr>visited := (visited st)(v \<mapsto> True)\<rparr>) = settings_of st"
      by simp_all
    have acc: "accepted (visited st) (e # rest) = accepted ((visited st)(v \<mapsto> True)) rest"
      using True unfolding e accepted.simps by blast
    show ?thesis
      unfolding step acc Cons.IH vis k2 by (rule refl)
  next
    case False
    have o: "keyboard_layouts (settings_of (override st)) ''default'' = Some defaultKeyPairs"
      by (simp add: override_def)
    from False show ?thesis
      by (auto simp: e check_entries_layout_stays [OF o])
  qed
qed

lemma check_entries_other_settings:
  "ignoreKeys (settings_of (check_entries es st)) = ignoreKeys (settings_of st)
   \<and> alt (settings_of (check_entries es st)) = alt (settings_of st)
   \<and> shiftAlt (settings_of (check_entries es st)) = shiftAlt (settings_of st)
   \<and> shiftCtrl (settings_of (check_entries es st)) = shiftCtrl (settings_of st)
   \<and> shiftAltCtrl (settings_of (check_entries es st)) = shiftAltCtrl (settings_of st)"
  by (induction es st rule: check_entries.induct) (simp_all add: override_def)

lemma buildShiftedKeyToKey_result:
  assumes "keyboard_layouts settings ''default'' = Some layout"
  shows "\<exists>st. buildShiftedKeyToKey settings = Inr st
           \<and> keyToShiftedKey st = (if accepted init_visited layout then layout else defaultKeyPairs)
           \<and> shiftedKeyToKey st = invert_entries (keyToShiftedKey st) Map.empty
           \<and> keyboard_layouts (settings_of st) ''default''
               = Some (if accepted init_visited layout then layout else defaultKeyPairs)
           \<and> ignoreKeys (settings_of st) = ignoreKeys settings"
  using assms
  by (simp add: buildShiftedKeyToKey_def Let_def check_entries_keyToShiftedKey
      check_entries_layout check_entries_other_settings)

lemma defaultKeyPairs_values: "(k, v) \<in> set defaultKeyPairs \<Longrightarrow> v \<in> set MappableKeys \<and> k \<noteq> []"
  unfolding defaultKeyPairs_def MappableKeys_def by auto

lemma active_layout_values:
  assumes "buildShiftedKeyToKey settings = Inr st" and "(k, v) \<in> set (keyToShiftedKey st)"
  shows "v \<in> set MappableKeys"
proof -
  obtain layout where l: "keyboard_layouts settings ''default'' = Some layout"
    using assms(1) by (auto simp: buildShiftedKeyToKey_def split: option.splits)
  from buildShiftedKeyToKey_result [OF l] assms(1)
  have k: "keyToShiftedKey st = (if accepted init_visited layout then layout else defaultKeyPairs)"
    by auto
  show ?thesis
  proof (cases "accepted init_visited layout")
    case True
    then show ?thesis using k assms(2) by (auto simp: accepted_init)
  next
    case False
    then show ?thesis using k assms(2) defaultKeyPairs_values by auto
  qed
qed

lemma shifted_set_mappable:
  assumes "buildShiftedKeyToKey settings = Inr st" and "shiftedKeyToKey st x = Some k"
  shows "x \<in> set MappableKeys"
proof -
  obtain layout where l: "keyboard_layouts settings ''default'' = Some layout"
    using assms(1) by (auto simp: buildShiftedKeyToKey_def split: option.splits)
  from buildShiftedKeyToKey_result [OF l] assms(1)
  have "shiftedKeyToKey st = invert_entries (keyToShiftedKey st) Map.empty"
    by auto
  with assms(2) have "map_of (rev (map (\<lambda>(k, v). (v, k)) (keyToShiftedKey st))) x = Some k"
    by (simp add: invert_entries_apply split: option.splits)
  then have "(x, k) \<in> set (rev (map (\<lambda>(k, v). (v, k)) (keyToShiftedKey st)))"
    by (rule map_of_SomeD)
  then have "(k, x) \<in> set (keyToShiftedKey st)"
    by auto
  then show ?thesis
    by (rule active_layout_values [OF assms(1)])
qed

text \<open>
  Claim C8. For every key \<open>k\<close> of the built-in default layout with shifted character \<open>v\<close>,
  the handler built on that layout maps \<open>v\<close> back to \<open>k\<close>:
  \<^verbatim>\<open>unshiftedOf(layoutOf(k)) == k\<close>.
\<close>

theorem default_layout_round_trip:
  assumes "keyboard_layouts settings ''default'' = Some defaultKeyPairs"
    and "map_of defaultKeyPairs k = Some v"
  shows "\<exists>st. buildShiftedKeyToKey settings = Inr st
           \<and> keyToShiftedKey st = defaultKeyPairs
           \<and> getUnshiftedKey (shiftedKeyToKey st) v = KeyStr k"
proof -
  from buildShiftedKeyToKey_result [OF assms(1)]
  obtain st where st: "buildShiftedKeyToKey settings = Inr st"
    and k: "keyToShiftedKey st = defaultKeyPairs"
    and m: "shiftedKeyToKey st = invert_entries (keyToShiftedKey st) Map.empty"
    by auto
  have kv: "(k, v) \<in> set defaultKeyPairs"
    using assms(2) by (rule map_of_SomeD)
  have "shiftedKeyToKey st v = Some k"
    unfolding m k by (rule invert_entries_distinct [OF distinct_default_shifted kv])
  moreover have "k \<noteq> []"
    using defaultKeyPairs_values [OF kv] by simp
  ultimately have "getUnshiftedKey (shiftedKeyToKey st) v = KeyStr k"
    by (simp add: getUnshiftedKey_def js_lookup_def)
  with st k show ?thesis by blast
qed

theorem default_layout_round_trip_witness:
  "\<exists>st. buildShiftedKeyToKey example_settings = Inr st
      \<and> keyToShiftedKey st = defaultKeyPairs
      \<and> getUnshiftedKey (shiftedKeyToKey st) ''@'' = KeyStr ''2''"
proof -
  have l: "keyboard_layouts example_settings ''default'' = Some defaultKeyPairs"
    by (simp add: example_settings_def)
  have m: "map_of defaultKeyPairs ''2'' = Some ''@''"
    by (simp add: defaultKeyPairs_def)
  show ?thesis
    by (rule default_layout_round_trip [OF l m])
qed

text \<open>
  A configured layout is discarded as a whole, and the default layout is used for both
  maps and stored in the settings, when an entry has a key that is neither a mappable key
  nor the name of a member of \<^verbatim>\<open>Object.prototype\<close>, or a shifted value that is not a
  mappable key, or when a shifted value occurs twice.
\<close>

lemma invalid_layout_discarded:
  assumes "keyboard_layouts settings ''default'' = Some layout"
    and "(\<exists>(k, v) \<in> set layout. (k \<notin> set MappableKeys \<and> k \<notin> set object_prototype_keys)
            \<or> v \<notin> set MappableKeys)
         \<or> \<not> distinct (map snd layout)"
  shows "\<exists>st. buildShiftedKeyToKey settings = Inr st
           \<and> keyToShiftedKey st = defaultKeyPairs
           \<and> shiftedKeyToKey st = invert_entries defaultKeyPairs Map.empty
           \<and> keyboard_layouts (settings_of st) ''default'' = Some defaultKeyPairs"
proof -
  have "\<not> accepted init_visited layout"
    using assms(2) by (auto simp: accepted_init)
  with buildShiftedKeyToKey_result [OF assms(1)] show ?thesis
    by auto
qed

text \<open>
  Claim C4 says that every layout with a key outside \<open>MappableKeys\<close> is discarded. The
  check \<^verbatim>\<open>visited[k] === undefined\<close> reads through the prototype of \<^verbatim>\<open>visited\<close>, so the
  key \<^verbatim>\<open>constructor\<close> passes it: the layout \<^verbatim>\<open>{"constructor": "!"}\<close> is kept, and the
  inverse map sends \<^verbatim>\<open>!\<close> to \<^verbatim>\<open>constructor\<close>.
\<close>

theorem inherited_key_not_discarded:
  "\<exists>st. buildShiftedKeyToKey
           (example_settings\<lparr>keyboard_layouts := [''default'' \<mapsto> [(''constructor'', ''!'')]]\<rparr>) = Inr st
      \<and> keyToShiftedKey st = [(''constructor'', ''!'')]
      \<and> shiftedKeyToKey st ''!'' = Some ''constructor''
      \<and> keyboard_layouts (settings_of st) ''default'' = Some [(''constructor'', ''!'')]
      \<and> ''constructor'' \<notin> set MappableKeys
      \<and> keyToShiftedKey st \<noteq> defaultKeyPairs"
proof -
  let ?s = "example_settings\<lparr>keyboard_layouts := [''default'' \<mapsto> [(''constructor'', ''!'')]]\<rparr>"
  have l: "keyboard_layouts ?s ''default'' = Some [(''constructor'', ''!'')]"
    by simp
  have a: "accepted init_visited [(''constructor'', ''!'')]"
    unfolding accepted_init by (simp add: MappableKeys_def object_prototype_keys_def)
  have n: "''constructor'' \<notin> set MappableKeys"
    by (simp add: MappableKeys_def)
  have d: "[(''constructor'', ''!'')] \<noteq> defaultKeyPairs"
    by (simp add: defaultKeyPairs_def)
  from buildShiftedKeyToKey_result [OF l] a n d show ?thesis
    by auto
qed

section \<open>Properties of the keydown listener\<close>

lemma ignored_keys_eq:
  "ignored_keys h = suppression_list (settings_of (closure h)) (currentMode h)"
  by (simp add: ignored_keys_def suppression_list_def Let_def split: option.splits)

text \<open>
  For a key label that is not the name of a member of \<^verbatim>\<open>Object.prototype\<close>, the test of
  \<^verbatim>\<open>hasUnshiftedKey\<close> is membership in the shifted set of the layout.
\<close>

lemma hasUnshiftedKey_own:
  "k \<notin> set object_prototype_keys \<Longrightarrow> hasUnshiftedKey m k \<longleftrightarrow> m k \<noteq> None"
  by (simp add: hasUnshiftedKey_def js_lookup_def split: option.splits)

lemma resolve_shift_cases:
  "resolve_shift st evt =
     (if hasUnshiftedKey (shiftedKeyToKey st) (key evt) \<and> \<not> flagged_combination (settings_of st) evt
      then (specialKeys, KeyStr (key evt))
      else (specialKeys @ [(''Shift'', ''S'')], getUnshiftedKey (shiftedKeyToKey st) (key evt)))"
proof -
  have "flagged_combination (settings_of st) evt =
      ((shiftKey evt \<and> altKey evt \<and> \<not> ctrlKey evt) \<and> shiftAlt (settings_of st)
       \<or> (shiftKey evt \<and> \<not> altKey evt \<and> ctrlKey evt) \<and> shiftCtrl (settings_of st)
       \<or> (shiftKey evt \<and> altKey evt \<and> ctrlKey evt) \<and> shiftAltCtrl (settings_of st))"
    unfolding flagged_combination_def by blast
  then show ?thesis
    unfolding resolve_shift_def Let_def by simp
qed


lemma example_shifted: "shiftedKeyToKey (closure example_handler) ''@'' = Some ''2''"
proof -
  have "(''2'', ''@'') \<in> set defaultKeyPairs"
    by (simp add: defaultKeyPairs_def)
  from invert_entries_distinct [OF distinct_default_shifted this]
  show ?thesis by (simp add: example_handler_def)
qed

lemma compose_Nil: "compose u evt [] start = start"
  and compose_Cons: "compose u evt ((attr, m) # mods) start =
     compose u evt mods (if getModifierState evt attr then addModifier u m start else start)"
  by (simp_all add: compose_def)

lemma compose_append: "compose u evt (xs @ ys) start = compose u evt ys (compose u evt xs start)"
  by (simp add: compose_def)


text \<open>
  Claim C7. For a trusted, translatable event the suppression list is the list of the
  current mode (empty if none) followed by the list of \<^verbatim>\<open>all\<close>. If it holds the composed
  notation string, nothing is emitted and the default action is not prevented; otherwise
  the string is emitted, the default action is prevented and the propagation is stopped.
\<close>

theorem ignore_list_filter:
  assumes "translatable u evt" and "\<not> alt_escape (settings_of (closure h)) evt"
    and "resolve_shift (closure h) evt = (inputMods, KeyStr inputKey)"
  shows "\<exists>r. keydown u h evt = Inr r
           \<and> (if compose u evt inputMods (translateKey u inputKey)
                   \<in> set (suppression_list (settings_of (closure h)) (currentMode h))
              then emitted r = None \<and> \<not> defaultPrevented r \<and> \<not> propagationStopped r
              else emitted r = Some (compose u evt inputMods (translateKey u inputKey))
                   \<and> defaultPrevented r \<and> propagationStopped r)"
  using assms
  by (simp add: keydown_def deliver_def ignored_keys_eq emit_input_def no_effect_def)

theorem ignore_list_filter_witness:
  "(\<exists>r. keydown spec_keys example_handler_ignoring (example_event ''@'' [''Control'']) = Inr r
       \<and> emitted r = None \<and> \<not> defaultPrevented r \<and> \<not> propagationStopped r)
   \<and> (\<exists>r. keydown spec_keys example_handler_ignoring (example_event ''a'' [''Control'']) = Inr r
       \<and> emitted r = Some ''<C-a>'' \<and> defaultPrevented r \<and> propagationStopped r)"
proof -
  let ?h = example_handler_ignoring
  let ?at = "example_event ''@'' [''Control'']"
  let ?a = "example_event ''a'' [''Control'']"
  have m: "shiftedKeyToKey (closure ?h) = shiftedKeyToKey (closure example_handler)"
    by (simp add: example_handler_ignoring_def)
  have s: "settings_of (closure ?h)
             = example_settings\<lparr>ignoreKeys := [Mode_normal \<mapsto> [''<C-@>''], Mode_all \<mapsto> [''<C-1>'']]\<rparr>"
    by (simp add: example_handler_ignoring_def)
  have has: "hasUnshiftedKey (shiftedKeyToKey (closure ?h)) ''@''"
    by (simp add: m hasUnshiftedKey_def js_lookup_def example_shifted)
  have "(''a'', k) \<notin> set (rev (map (\<lambda>(k, v). (v, k)) defaultKeyPairs))" for k
    by (auto simp: defaultKeyPairs_def)
  then have "map_of (rev (map (\<lambda>(k, v). (v, k)) defaultKeyPairs)) ''a'' = None"
    by (metis map_of_SomeD not_Some_eq)
  then have none: "shiftedKeyToKey (closure ?h) ''a'' = None"
    by (simp add: m example_handler_def invert_entries_apply)
  have una: "getUnshiftedKey (shiftedKeyToKey (closure ?h)) ''a'' = KeyStr ''a''"
    and nhas: "\<not> hasUnshiftedKey (shiftedKeyToKey (closure ?h)) ''a''"
    by (simp_all add: getUnshiftedKey_def hasUnshiftedKey_def js_lookup_def none
        object_prototype_keys_def)
  have sup: "suppression_list (settings_of (closure ?h)) (currentMode ?h) = [''<C-@>'', ''<C-1>'']"
    by (simp add: s suppression_list_def example_handler_ignoring_def example_handler_def)
  have t1: "translatable spec_keys ?at" and t2: "translatable spec_keys ?a"
    by (simp_all add: translatable_def example_event_def specialKeys_def)
  have a1: "\<not> alt_escape (settings_of (closure ?h)) ?at"
    and a2: "\<not> alt_escape (settings_of (closure ?h)) ?a"
    by (simp_all add: alt_escape_def example_event_def)
  have r1: "resolve_shift (closure ?h) ?at = (specialKeys, KeyStr ''@'')"
    using has
    by (simp add: resolve_shift_cases flagged_combination_def example_event_def)
  have r2: "resolve_shift (closure ?h) ?a = (specialKeys @ [(''Shift'', ''S'')], KeyStr ''a'')"
    using nhas una
    by (simp add: resolve_shift_cases example_event_def)
  have c1: "compose spec_keys ?at specialKeys (translateKey spec_keys ''@'') = ''<C-@>''"
    by (simp add: specialKeys_def compose_Cons compose_Nil example_event_def spec_keys_def
        spec_translateKey_def spec_nonLiteralKeys_def spec_addModifier_def unbracket_def)
  have c2: "compose spec_keys ?a (specialKeys @ [(''Shift'', ''S'')]) (translateKey spec_keys ''a'')
              = ''<C-a>''"
    by (simp add: specialKeys_def compose_Cons compose_Nil example_event_def spec_keys_def
        spec_translateKey_def spec_nonLiteralKeys_def spec_addModifier_def unbracket_def)
  show ?thesis
    using ignore_list_filter [OF t1 a1 r1] ignore_list_filter [OF t2 a2 r2]
    by (simp add: c1 c2 sup)
qed

lemma getUnshiftedKey_string:
  "k \<notin> set object_prototype_keys \<Longrightarrow> \<exists>k'. getUnshiftedKey m k = KeyStr k'"
  by (simp add: getUnshiftedKey_def js_lookup_def split: option.splits)

lemma keydown_total:
  assumes "key evt \<notin> set object_prototype_keys"
  shows "\<exists>r. keydown u h evt = Inr r \<and> (r = no_effect \<or> (\<exists>text. r = emit_input text))"
proof -
  obtain k where k: "getUnshiftedKey (shiftedKeyToKey (closure h)) (key evt) = KeyStr k"
    using getUnshiftedKey_string [OF assms] by blast
  show ?thesis
    by (auto simp: keydown_def resolve_shift_cases deliver_def k)
qed

lemma new_KeyHandler_result:
  assumes "keyboard_layouts settings ''default'' = Some layout"
  shows "\<exists>h. new_KeyHandler settings = Inr h \<and> currentMode h = None
           \<and> ignoreKeys (settings_of (closure h)) = ignoreKeys settings"
  using buildShiftedKeyToKey_result [OF assms]
  by (auto simp: new_KeyHandler_def)

text \<open>
  On settings that have the layout \<^verbatim>\<open>default\<close>, and for a key label that is not the name
  of a member of \<^verbatim>\<open>Object.prototype\<close>, the constructor and the listener of the typed model
  return: the listener has no effect (it declines or suppresses) or emits one text.
\<close>

lemma press_total:
  assumes "keyboard_layouts settings ''default'' = Some layout"
    and "key evt \<notin> set object_prototype_keys"
  shows "\<exists>r. press u settings mode evt = Inr r
           \<and> (r = no_effect \<or> (\<exists>text. r = emit_input text))"
proof -
  obtain h where "new_KeyHandler settings = Inr h"
    using new_KeyHandler_result [OF assms(1)] by blast
  then show ?thesis
    using keydown_total [OF assms(2), of u "h\<lparr>currentMode := mode\<rparr>"]
    by (simp add: press_def)
qed

lemma keydown_captured_table:
  "keydown_captured u (NotNull (ignoreKeys (settings_of (closure h)))) h evt = keydown u h evt"
  by (simp add: keydown_captured_def keydown_def split: prod.splits key_value.splits)

lemma invert_entries_absent:
  assumes "x \<notin> snd ` set es"
  shows "invert_entries es Map.empty x = None"
proof -
  have "x \<notin> fst ` set (rev (map (\<lambda>(k, v). (v, k)) es))"
    using assms by force
  then have "map_of (rev (map (\<lambda>(k, v). (v, k)) es)) x = None"
    by (simp add: map_of_eq_None_iff)
  then show ?thesis
    by (simp add: invert_entries_apply)
qed

lemma example_handler_absent:
  "shiftedKeyToKey (closure example_handler) ''a'' = None"
  "shiftedKeyToKey (closure example_handler) ''constructor'' = None"
  by (simp_all add: example_handler_def invert_entries_absent defaultKeyPairs_def)

lemma null_ignoreKeys_kept:
  "\<exists>t. mergeWithDefaults ''linux'' null_ignoreKeys_tree = Inr t
      \<and> lookup_path [''globalSettings'', ''ignoreKeys''] t = Some JNull"
proof -
  have "case mergeWithDefaults ''linux'' null_ignoreKeys_tree of
          Inl e \<Rightarrow> False
        | Inr t \<Rightarrow> lookup_path [''globalSettings'', ''ignoreKeys''] t = Some JNull"
    by code_simp
  then show ?thesis
    by (auto split: sum.splits)
qed

text \<open>
  Claim C5 says that no raw key makes the listener throw, whatever the key label, on
  well-formed settings. Two inputs on which no defined outcome is reached, for all exports
  of \<^verbatim>\<open>utils/keys\<close>, on the handler that the constructor builds from the default settings.
  First, a trusted Control+Shift press with the key label \<^verbatim>\<open>constructor\<close>: the read
  \<^verbatim>\<open>shiftedKeyToKey[shifted_key]\<close> of \<^verbatim>\<open>hasUnshiftedKey\<close> and \<^verbatim>\<open>getUnshiftedKey\<close> goes through
  the prototype of the object literal, the flag \<^verbatim>\<open>shiftCtrl\<close> (set by default) sends the
  listener to \<^verbatim>\<open>getUnshiftedKey\<close>, and the function found there, which is not a string, is
  handed to \<^verbatim>\<open>translateKey\<close> and \<^verbatim>\<open>addModifier\<close>. Second, the user configuration with
  \<^verbatim>\<open>ignoreKeys: null\<close>: the defaulting merge returns and keeps the \<^verbatim>\<open>null\<close>, and with this
  value captured a trusted Control+a raises a \<open>TypeError\<close> at the read of the ignore list.
\<close>

theorem keydown_throws:
  "keydown u example_handler (example_event ''constructor'' [''Control'', ''Shift''])
     = Inl (NotAString ''constructor'')
   \<and> (\<exists>t. mergeWithDefaults ''linux'' null_ignoreKeys_tree = Inr t
          \<and> lookup_path [''globalSettings'', ''ignoreKeys''] t = Some JNull)
   \<and> keydown_captured u Null example_handler (example_event ''a'' [''Control'']) = Inl TypeError"
proof -
  have s: "settings_of (closure example_handler) = example_settings"
    by (simp add: example_handler_def)
  have t1: "translatable u (example_event ''constructor'' [''Control'', ''Shift''])"
    and t2: "translatable u (example_event ''a'' [''Control''])"
    by (simp_all add: translatable_def example_event_def specialKeys_def)
  have a1: "\<not> alt_escape example_settings (example_event ''constructor'' [''Control'', ''Shift''])"
    and a2: "\<not> alt_escape example_settings (example_event ''a'' [''Control''])"
    by (simp_all add: alt_escape_def example_event_def)
  have r1: "resolve_shift (closure example_handler) (example_event ''constructor'' [''Control'', ''Shift''])
              = (specialKeys @ [(''Shift'', ''S'')], KeyProto ''constructor'')"
    by (simp add: resolve_shift_def s example_settings_def example_event_def hasUnshiftedKey_def
        getUnshiftedKey_def js_lookup_def example_handler_absent object_prototype_keys_def)
  have r2: "resolve_shift (closure example_handler) (example_event ''a'' [''Control''])
              = (specialKeys @ [(''Shift'', ''S'')], KeyStr ''a'')"
    by (simp add: resolve_shift_def s example_event_def hasUnshiftedKey_def
        getUnshiftedKey_def js_lookup_def example_handler_absent object_prototype_keys_def)
  have k1: "keydown u example_handler (example_event ''constructor'' [''Control'', ''Shift''])
              = Inl (NotAString ''constructor'')"
    by (simp add: keydown_def s a1 t1 r1)
  have k2: "keydown_captured u Null example_handler (example_event ''a'' [''Control'']) = Inl TypeError"
    by (simp add: keydown_captured_def s a2 t2 r2)
  from k1 null_ignoreKeys_kept k2 show ?thesis
    by blast
qed

lemma MappableKeys_not_modifier:
  "x \<in> set MappableKeys \<Longrightarrow> list_all (\<lambda>(name, _). x \<noteq> name) (specialKeys @ [(''Shift'', ''S'')])"
  unfolding MappableKeys_def specialKeys_def by auto

lemma shift_only_press:
  assumes h: "new_KeyHandler settings = Inr h"
    and shifted: "shiftedKeyToKey (closure h) (key evt) \<noteq> None"
    and trusted: "isTrusted evt"
    and mods: "shiftKey evt" "\<not> altKey evt" "\<not> ctrlKey evt" "\<not> metaKey evt"
    and held: "\<forall>attr \<in> {''Alt'', ''Control'', ''OS'', ''Meta''}. \<not> getModifierState evt attr"
  shows "press u settings mode evt
           = Inr (if translateKey u (key evt) \<in> set (suppression_list settings mode) then no_effect
                  else emit_input (translateKey u (key evt)))"
proof -
  obtain st where st: "buildShiftedKeyToKey settings = Inr st" and hst: "h = \<lparr>closure = st, currentMode = None\<rparr>"
    using h by (auto simp: new_KeyHandler_def split: sum.splits)
  obtain layout where l: "keyboard_layouts settings ''default'' = Some layout"
    using st by (auto simp: buildShiftedKeyToKey_def split: option.splits)
  have ign: "ignoreKeys (settings_of (closure h)) = ignoreKeys settings"
    using buildShiftedKeyToKey_result [OF l] st hst by auto
  obtain k where "shiftedKeyToKey st (key evt) = Some k"
    using shifted hst by auto
  then have mk: "key evt \<in> set MappableKeys"
    by (rule shifted_set_mappable [OF st])
  let ?h = "h\<lparr>currentMode := mode\<rparr>"
  have has: "hasUnshiftedKey (shiftedKeyToKey (closure ?h)) (key evt)"
    using shifted by (auto simp: hasUnshiftedKey_def js_lookup_def)
  have nf: "\<not> flagged_combination (settings_of (closure ?h)) evt"
    using mods by (simp add: flagged_combination_def)
  have tr: "translatable u evt"
    using trusted mods MappableKeys_not_modifier [OF mk] by (simp add: translatable_def)
  have na: "\<not> alt_escape (settings_of (closure ?h)) evt"
    using mods by (simp add: alt_escape_def)
  have c: "compose u evt specialKeys start = start" for start
    using held by (simp add: specialKeys_def compose_Cons compose_Nil)
  have "keydown u ?h evt = Inr (deliver ?h (translateKey u (key evt)))"
    using tr na has nf by (simp add: keydown_def resolve_shift_cases c)
  moreover have "ignored_keys ?h = suppression_list settings mode"
    by (simp add: ignored_keys_eq suppression_list_def ign split: option.splits)
  ultimately show ?thesis
    using h by (simp add: press_def deliver_def)
qed

text \<open>
  Claim C2, amended. For a trusted event whose only active modifier is Shift and whose key
  is in the shifted set of the active layout, the translation is the raw key, translated,
  with no modifier prefix at all, whatever the three shift-interaction flags are; it is
  emitted unless the suppression list holds it.
\<close>

theorem shift_only_translation:
  assumes "new_KeyHandler settings = Inr h"
    and "shiftedKeyToKey (closure h) (key evt) \<noteq> None"
    and "isTrusted evt"
    and "shiftKey evt" "\<not> altKey evt" "\<not> ctrlKey evt" "\<not> metaKey evt"
    and "\<forall>attr \<in> {''Alt'', ''Control'', ''OS'', ''Meta''}. \<not> getModifierState evt attr"
  shows "press u settings mode evt
           = Inr (if translateKey u (key evt) \<in> set (suppression_list settings mode) then no_effect
                  else emit_input (translateKey u (key evt)))"
  using assms by (rule shift_only_press)

lemma example_press_facts:
  assumes "keyboard_layouts settings ''default'' = Some defaultKeyPairs"
  shows "\<exists>h. new_KeyHandler settings = Inr h \<and> shiftedKeyToKey (closure h) ''!'' = Some ''1''"
proof -
  from buildShiftedKeyToKey_result [OF assms]
  obtain st where st: "buildShiftedKeyToKey settings = Inr st"
    and k: "keyToShiftedKey st = defaultKeyPairs"
    and m: "shiftedKeyToKey st = invert_entries (keyToShiftedKey st) Map.empty"
    by auto
  have "(''1'', ''!'') \<in> set defaultKeyPairs"
    by (simp add: defaultKeyPairs_def)
  from invert_entries_distinct [OF distinct_default_shifted this]
  have "shiftedKeyToKey st ''!'' = Some ''1''"
    by (simp add: m k)
  then show ?thesis
    using st by (simp add: new_KeyHandler_def)
qed

theorem shift_only_translation_witness:
  "press spec_keys example_settings (Some Mode_normal) (example_event ''!'' [''Shift''])
     = Inr (emit_input ''!'')"
proof -
  have "keyboard_layouts example_settings ''default'' = Some defaultKeyPairs"
    by (simp add: example_settings_def)
  from example_press_facts [OF this]
  obtain h where h: "new_KeyHandler example_settings = Inr h"
    and s: "shiftedKeyToKey (closure h) (key (example_event ''!'' [''Shift''])) \<noteq> None"
    by (auto simp: example_event_def)
  have "press spec_keys example_settings (Some Mode_normal) (example_event ''!'' [''Shift''])
     = Inr (if translateKey spec_keys (key (example_event ''!'' [''Shift'']))
                \<in> set (suppression_list example_settings (Some Mode_normal)) then no_effect
            else emit_input (translateKey spec_keys (key (example_event ''!'' [''Shift'']))))"
    by (rule shift_only_translation [OF h s]) (simp_all add: example_event_def)
  then show ?thesis
    by (simp add: example_event_def suppression_list_def example_settings_def spec_keys_def
        spec_translateKey_def spec_nonLiteralKeys_def)
qed

text \<open>
  Claim C2 as stated fails: with Shift alone on \<^verbatim>\<open>!\<close> the handler emits \<^verbatim>\<open>!\<close>, not
  \<^verbatim>\<open><S-1>\<close>, with the three flags all false and with the three flags all true.
\<close>

theorem shift_only_counterexample:
  "press spec_keys (example_settings\<lparr>shiftAlt := False, shiftCtrl := False, shiftAltCtrl := False\<rparr>)
       None (example_event ''!'' [''Shift''])
     = Inr (emit_input ''!'')
   \<and> press spec_keys (example_settings\<lparr>shiftAlt := True, shiftCtrl := True, shiftAltCtrl := True\<rparr>)
       None (example_event ''!'' [''Shift''])
     = Inr (emit_input ''!'')
   \<and> emit_input ''!'' \<noteq> emit_input ''<S-1>''"
proof -
  let ?e = "example_event ''!'' [''Shift'']"
  have p: "press spec_keys (example_settings\<lparr>shiftAlt := a, shiftCtrl := b, shiftAltCtrl := c\<rparr>) None ?e
             = Inr (emit_input ''!'')" for a b c
  proof -
    let ?s = "example_settings\<lparr>shiftAlt := a, shiftCtrl := b, shiftAltCtrl := c\<rparr>"
    have "keyboard_layouts ?s ''default'' = Some defaultKeyPairs"
      by (simp add: example_settings_def)
    from example_press_facts [OF this]
    obtain h where h: "new_KeyHandler ?s = Inr h"
      and s: "shiftedKeyToKey (closure h) (key ?e) \<noteq> None"
      by (auto simp: example_event_def)
    have "press spec_keys ?s None ?e
       = Inr (if translateKey spec_keys (key ?e) \<in> set (suppression_list ?s None) then no_effect
              else emit_input (translateKey spec_keys (key ?e)))"
      by (rule shift_only_press [OF h s]) (simp_all add: example_event_def)
    then show ?thesis
      by (simp add: example_event_def suppression_list_def example_settings_def spec_keys_def
          spec_translateKey_def spec_nonLiteralKeys_def)
  qed
  have "emit_input ''!'' \<noteq> emit_input ''<S-1>''"
    by (simp add: emit_input_def)
  with p show ?thesis by blast
qed

section \<open>Properties of the site resolution\<close>

lemma filter_matching_ok:
  "\<forall>(pat, s) \<in> set tbl. \<exists>t. RegExp pat = Inr t \<Longrightarrow>
   filter_matching RegExp url tbl = Inr (filter (\<lambda>(pat, s). matches RegExp pat url) tbl)"
proof (induction tbl)
  case Nil
  show ?case by simp
next
  case (Cons e tbl)
  obtain pat s where e: "e = (pat, s)" by (cases e)
  obtain t where t: "RegExp pat = Inr t"
    using Cons.prems e by auto
  have "filter_matching RegExp url tbl = Inr (filter (\<lambda>(pat, s). matches RegExp pat url) tbl)"
    using Cons by simp
  then show ?case
    by (simp add: e t matches_def)
qed

lemma or_else_simps [simp]:
  "or_else None old = old" "or_else (Some v) old = Some v" "or_else new None = new"
  by (simp_all add: or_else_def split: option.splits)

lemma or_else_assoc: "or_else a (or_else b c) = or_else (or_else a b) c"
  by (cases a) simp_all

lemma resolved_field_Nil [simp]: "resolved_field f [] = None"
  by (simp add: resolved_field_def)

lemma resolved_field_Cons: "resolved_field f (c # cs) = or_else (resolved_field f cs) (f c)"
proof (cases "filter (\<lambda>c. f c \<noteq> None) cs")
  case Nil
  then show ?thesis
    by (cases "f c") (simp_all add: resolved_field_def)
next
  case (Cons x xs)
  then have "last (x # xs) \<in> set (filter (\<lambda>c. f c \<noteq> None) cs)"
    by (metis last_in_set list.distinct(1))
  then obtain v where "f (last (x # xs)) = Some v"
    by auto
  then show ?thesis
    using Cons by (simp add: resolved_field_def)
qed

lemma fold_assign_field:
  assumes "\<And>acc cur. f (assign acc cur) = or_else (f cur) (f acc)"
  shows "f (foldl (\<lambda>acc (_, cur). assign acc cur) a es)
           = or_else (resolved_field f (map snd es)) (f a)"
proof (induction es arbitrary: a)
  case Nil
  show ?case by simp
next
  case (Cons e es)
  obtain pat c where e: "e = (pat, c)" by (cases e)
  have "f (foldl (\<lambda>acc (_, cur). assign acc cur) a (e # es))
          = or_else (resolved_field f (map snd es)) (f (assign a c))"
    by (simp add: e Cons.IH)
  also have "\<dots> = or_else (resolved_field f (map snd (e # es))) (f a)"
    by (simp add: e assms resolved_field_Cons or_else_assoc)
  finally show ?case .
qed

lemma assign_fields:
  "cmdline (assign acc cur) = or_else (cmdline cur) (cmdline acc)"
  "content (assign acc cur) = or_else (content cur) (content acc)"
  "priority (assign acc cur) = or_else (priority cur) (priority acc)"
  "renderer (assign acc cur) = or_else (renderer cur) (renderer acc)"
  "selector (assign acc cur) = or_else (selector cur) (selector acc)"
  "takeover (assign acc cur) = or_else (takeover cur) (takeover acc)"
  "filename (assign acc cur) = or_else (filename cur) (filename acc)"
  by (simp_all add: assign_def)

lemma getConfForUrl_table:
  assumes "localSettings c = Some tbl" and "\<forall>(pat, s) \<in> set tbl. \<exists>t. RegExp pat = Inr t"
  shows "getConfForUrl RegExp (Some c) url
           = Inr (foldl (\<lambda>acc (_, cur). assign acc cur) empty_site
                    (sort_key (\<lambda>e. or1 (priority (snd e)))
                       (filter (\<lambda>(pat, s). matches RegExp pat url) tbl)))"
  using assms by (simp add: getConfForUrl_def filter_matching_ok)

text \<open>When the stored object is there and only the site table is missing, the guard
  raises the reported error.\<close>


lemma or1_effective: "or1 (priority c) = effective_priority c"
  by (simp add: or1_def effective_priority_def)

lemma fragment_dot_star: "fragment_test ''.*'' = Some (match_anywhere [(AnyChar, True)])"
  by (simp add: fragment_test_def special_character_def)

lemma fragment_example:
  "fragment_test example_com_pattern
     = Some (match_anywhere (map (\<lambda>c. (Lit c, False)) ''example.com''))"
  by (simp add: fragment_test_def special_character_def example_com_pattern_def)

lemma follows_dot_star:
  "follows_fragment RegExp ''.*'' \<Longrightarrow> RegExp ''.*'' = Inr (match_anywhere [(AnyChar, True)])"
  by (simp add: follows_fragment_def fragment_dot_star)

lemma follows_example:
  "follows_fragment RegExp example_com_pattern \<Longrightarrow>
   RegExp example_com_pattern = Inr (match_anywhere (map (\<lambda>c. (Lit c, False)) ''example.com''))"
  by (simp add: follows_fragment_def fragment_example)

lemma example_resolution:
  assumes "follows_fragment RegExp ''.*''" and "follows_fragment RegExp example_com_pattern"
  shows "resolve_renderer RegExp
           [(''.*'', site_entry (Some 0) Renderer_canvas),
            (example_com_pattern, site_entry (Some 10) Renderer_html)] ''http://example.com''
         = Inr (Some Renderer_html)"
    and "resolve_renderer RegExp
           [(''.*'', site_entry (Some 0) Renderer_canvas),
            (example_com_pattern, site_entry (Some 10) Renderer_html)] ''http://other.com''
         = Inr (Some Renderer_canvas)"
    and "resolve_renderer RegExp
           [(example_com_pattern, site_entry (Some 10) Renderer_html),
            (''.*'', site_entry (Some 0) Renderer_canvas)] ''http://example.com''
         = Inr (Some Renderer_html)"
    and "resolve_renderer RegExp
           [(example_com_pattern, site_entry (Some 10) Renderer_html),
            (''.*'', site_entry (Some 0) Renderer_canvas)] ''http://other.com''
         = Inr (Some Renderer_canvas)"
    and "resolve_renderer RegExp
           [(example_com_pattern, site_entry None Renderer_html),
            (''.*'', site_entry (Some 0) Renderer_canvas)] ''http://example.com''
         = Inr (Some Renderer_html)"
    and "resolve_renderer RegExp
           [(''.*'', site_entry (Some 2) Renderer_canvas),
            (example_com_pattern, site_entry None Renderer_html)] ''http://example.com''
         = Inr (Some Renderer_canvas)"
  by (simp_all add: resolve_renderer_def getConfForUrl_def conf_of_table_def site_entry_def
      follows_dot_star [OF assms(1)] follows_example [OF assms(2)]
      assign_def empty_site_def or1_def)

text \<open>
  Claim C3. When the site table is there and its patterns compile, the result is the fold
  of \<^verbatim>\<open>Object.assign\<close> over a list \<open>ms\<close> which holds the entries whose pattern matches the
  URL, ascending by priority, a missing priority counting as 1 (\<open>effective_priority\<close>, which
  is written from the specification and not from the code's \<^verbatim>\<open>or1\<close>), entries of equal
  priority in the order of the table; so every field of the result is the field of the
  last entry of \<open>ms\<close> that sets it, and is unset if none does. For every regular-expression
  engine that agrees with the fragment on the two patterns of the example: with \<^verbatim>\<open>.*\<close>
  (priority 0, canvas) and the pattern for \<^verbatim>\<open>example.com\<close> (priority 10, html), in either
  order in the table, \<^verbatim>\<open>http://example.com\<close> resolves to the renderer \<^verbatim>\<open>html\<close> and
  \<^verbatim>\<open>http://other.com\<close> to \<^verbatim>\<open>canvas\<close>; an entry without priority placed first wins over
  one of priority 0 and, placed last, loses to one of priority 2.
\<close>

theorem getConfForUrl_resolution:
  "(localSettings c = Some tbl \<longrightarrow> (\<forall>(pat, s) \<in> set tbl. \<exists>t. RegExp pat = Inr t) \<longrightarrow>
      (\<exists>ms r. getConfForUrl RegExp (Some c) url = Inr r
         \<and> sorted (map (\<lambda>e. effective_priority (snd e)) ms)
         \<and> (\<forall>p. filter (\<lambda>e. effective_priority (snd e) = p) ms
                 = filter (\<lambda>e. effective_priority (snd e) = p)
                     (filter (\<lambda>(pat, s). matches RegExp pat url) tbl))
         \<and> cmdline r = resolved_field cmdline (map snd ms)
         \<and> content r = resolved_field content (map snd ms)
         \<and> priority r = resolved_field priority (map snd ms)
         \<and> renderer r = resolved_field renderer (map snd ms)
         \<and> selector r = resolved_field selector (map snd ms)
         \<and> takeover r = resolved_field takeover (map snd ms)
         \<and> filename r = resolved_field filename (map snd ms)))
   \<and> (follows_fragment RegExp ''.*'' \<longrightarrow> follows_fragment RegExp example_com_pattern \<longrightarrow>
      (resolve_renderer RegExp
           [(''.*'', site_entry (Some 0) Renderer_canvas),
            (example_com_pattern, site_entry (Some 10) Renderer_html)] ''http://example.com''
         = Inr (Some Renderer_html)
       \<and> resolve_renderer RegExp
           [(''.*'', site_entry (Some 0) Renderer_canvas),
            (example_com_pattern, site_entry (Some 10) Renderer_html)] ''http://other.com''
         = Inr (Some Renderer_canvas)
       \<and> resolve_renderer RegExp
           [(example_com_pattern, site_entry (Some 10) Renderer_html),
            (''.*'', site_entry (Some 0) Renderer_canvas)] ''http://example.com''
         = Inr (Some Renderer_html)
       \<and> resolve_renderer RegExp
           [(example_com_pattern, site_entry (Some 10) Renderer_html),
            (''.*'', site_entry (Some 0) Renderer_canvas)] ''http://other.com''
         = Inr (Some Renderer_canvas)
       \<and> resolve_renderer RegExp
           [(example_com_pattern, site_entry None Renderer_html),
            (''.*'', site_entry (Some 0) Renderer_canvas)] ''http://example.com''
         = Inr (Some Renderer_html)
       \<and> resolve_renderer RegExp
           [(''.*'', site_entry (Some 2) Renderer_canvas),
            (example_com_pattern, site_entry None Renderer_html)] ''http://example.com''
         = Inr (Some Renderer_canvas)))"
proof -
  have general: "\<exists>ms r. getConfForUrl RegExp (Some c) url = Inr r
         \<and> sorted (map (\<lambda>e. effective_priority (snd e)) ms)
         \<and> (\<forall>p. filter (\<lambda>e. effective_priority (snd e) = p) ms
                 = filter (\<lambda>e. effective_priority (snd e) = p)
                     (filter (\<lambda>(pat, s). matches RegExp pat url) tbl))
         \<and> cmdline r = resolved_field cmdline (map snd ms)
         \<and> content r = resolved_field content (map snd ms)
         \<and> priority r = resolved_field priority (map snd ms)
         \<and> renderer r = resolved_field renderer (map snd ms)
         \<and> selector r = resolved_field selector (map snd ms)
         \<and> takeover r = resolved_field takeover (map snd ms)
         \<and> filename r = resolved_field filename (map snd ms)"
    if l: "localSettings c = Some tbl" and ok: "\<forall>(pat, s) \<in> set tbl. \<exists>t. RegExp pat = Inr t"
  proof -
    let ?ms = "sort_key (\<lambda>e. effective_priority (snd e))
                 (filter (\<lambda>(pat, s). matches RegExp pat url) tbl)"
    let ?r = "foldl (\<lambda>acc (_, cur). assign acc cur) empty_site ?ms"
    have r: "getConfForUrl RegExp (Some c) url = Inr ?r"
      using getConfForUrl_table [OF l ok] by (simp only: or1_effective)
    have s: "sorted (map (\<lambda>e. effective_priority (snd e)) ?ms)"
      by (rule sorted_sort_key)
    have st: "\<forall>p. filter (\<lambda>e. effective_priority (snd e) = p) ?ms
                 = filter (\<lambda>e. effective_priority (snd e) = p)
                     (filter (\<lambda>(pat, s). matches RegExp pat url) tbl)"
      by (simp only: sort_key_stable) simp
    have f: "cmdline ?r = resolved_field cmdline (map snd ?ms)"
      "content ?r = resolved_field content (map snd ?ms)"
      "priority ?r = resolved_field priority (map snd ?ms)"
      "renderer ?r = resolved_field renderer (map snd ?ms)"
      "selector ?r = resolved_field selector (map snd ?ms)"
      "takeover ?r = resolved_field takeover (map snd ?ms)"
      "filename ?r = resolved_field filename (map snd ?ms)"
      by (simp_all only: fold_assign_field [OF assign_fields(1)] fold_assign_field [OF assign_fields(2)]
          fold_assign_field [OF assign_fields(3)] fold_assign_field [OF assign_fields(4)]
          fold_assign_field [OF assign_fields(5)] fold_assign_field [OF assign_fields(6)]
          fold_assign_field [OF assign_fields(7)])
        (simp_all add: empty_site_def)
    from r s st f show ?thesis by blast
  qed
  have examples: "resolve_renderer RegExp
           [(''.*'', site_entry (Some 0) Renderer_canvas),
            (example_com_pattern, site_entry (Some 10) Renderer_html)] ''http://example.com''
         = Inr (Some Renderer_html)
       \<and> resolve_renderer RegExp
           [(''.*'', site_entry (Some 0) Renderer_canvas),
            (example_com_pattern, site_entry (Some 10) Renderer_html)] ''http://other.com''
         = Inr (Some Renderer_canvas)
       \<and> resolve_renderer RegExp
           [(example_com_pattern, site_entry (Some 10) Renderer_html),
            (''.*'', site_entry (Some 0) Renderer_canvas)] ''http://example.com''
         = Inr (Some Renderer_html)
       \<and> resolve_renderer RegExp
           [(example_com_pattern, site_entry (Some 10) Renderer_html),
            (''.*'', site_entry (Some 0) Renderer_canvas)] ''http://other.com''
         = Inr (Some Renderer_canvas)
       \<and> resolve_renderer RegExp
           [(example_com_pattern, site_entry None Renderer_html),
            (''.*'', site_entry (Some 0) Renderer_canvas)] ''http://example.com''
         = Inr (Some Renderer_html)
       \<and> resolve_renderer RegExp
           [(''.*'', site_entry (Some 2) Renderer_canvas),
            (example_com_pattern, site_entry None Renderer_html)] ''http://example.com''
         = Inr (Some Renderer_canvas)"
    if "follows_fragment RegExp ''.*''" and "follows_fragment RegExp example_com_pattern"
    by (intro conjI) (rule example_resolution [OF that])+
  from general examples show ?thesis by blast
qed

theorem getConfForUrl_resolution_witness:
  "(\<exists>ms r. getConfForUrl (\<lambda>pat. case fragment_test pat of None \<Rightarrow> Inl SyntaxError | Some test \<Rightarrow> Inr test)
              (Some (conf_of_table [(example_com_pattern, site_entry None Renderer_html),
                                    (''.*'', site_entry (Some 0) Renderer_canvas)]))
              ''http://example.com'' = Inr r
         \<and> sorted (map (\<lambda>e. effective_priority (snd e)) ms)
         \<and> (\<forall>p. filter (\<lambda>e. effective_priority (snd e) = p) ms
                 = filter (\<lambda>e. effective_priority (snd e) = p)
                     [(example_com_pattern, site_entry None Renderer_html),
                      (''.*'', site_entry (Some 0) Renderer_canvas)])
         \<and> renderer r = resolved_field renderer (map snd ms))
   \<and> resolve_renderer (\<lambda>pat. case fragment_test pat of None \<Rightarrow> Inl SyntaxError | Some test \<Rightarrow> Inr test)
           [(example_com_pattern, site_entry (Some 10) Renderer_html),
            (''.*'', site_entry (Some 0) Renderer_canvas)] ''http://example.com''
         = Inr (Some Renderer_html)
   \<and> resolve_renderer (\<lambda>pat. case fragment_test pat of None \<Rightarrow> Inl SyntaxError | Some test \<Rightarrow> Inr test)
           [(''.*'', site_entry (Some 2) Renderer_canvas),
            (example_com_pattern, site_entry None Renderer_html)] ''http://example.com''
         = Inr (Some Renderer_canvas)"
proof -
  let ?E = "\<lambda>pat. case fragment_test pat of None \<Rightarrow> Inl SyntaxError | Some test \<Rightarrow> Inr test"
  let ?T = "[(example_com_pattern, site_entry None Renderer_html),
             (''.*'', site_entry (Some 0) Renderer_canvas)]"
  have f1: "follows_fragment ?E ''.*''" and f2: "follows_fragment ?E example_com_pattern"
    by (simp_all add: follows_fragment_def fragment_dot_star fragment_example)
  have l: "localSettings (conf_of_table ?T) = Some ?T"
    by (simp add: conf_of_table_def)
  have ok: "\<forall>(pat, s) \<in> set ?T. \<exists>t. ?E pat = Inr t"
    by (simp add: fragment_dot_star fragment_example)
  have m: "filter (\<lambda>(pat, s). matches ?E pat ''http://example.com'') ?T = ?T"
    by (simp add: matches_def fragment_dot_star fragment_example)
  note inst = getConfForUrl_resolution [of "conf_of_table ?T" "?T" "?E" "''http://example.com''"]
  from inst l ok have "\<exists>ms r. getConfForUrl ?E (Some (conf_of_table ?T)) ''http://example.com'' = Inr r
         \<and> sorted (map (\<lambda>e. effective_priority (snd e)) ms)
         \<and> (\<forall>p. filter (\<lambda>e. effective_priority (snd e) = p) ms
                 = filter (\<lambda>e. effective_priority (snd e) = p)
                     (filter (\<lambda>(pat, s). matches ?E pat ''http://example.com'') ?T))
         \<and> cmdline r = resolved_field cmdline (map snd ms)
         \<and> content r = resolved_field content (map snd ms)
         \<and> priority r = resolved_field priority (map snd ms)
         \<and> renderer r = resolved_field renderer (map snd ms)
         \<and> selector r = resolved_field selector (map snd ms)
         \<and> takeover r = resolved_field takeover (map snd ms)
         \<and> filename r = resolved_field filename (map snd ms)"
    by blast
  then have first: "\<exists>ms r. getConfForUrl ?E (Some (conf_of_table ?T)) ''http://example.com'' = Inr r
         \<and> sorted (map (\<lambda>e. effective_priority (snd e)) ms)
         \<and> (\<forall>p. filter (\<lambda>e. effective_priority (snd e) = p) ms
                 = filter (\<lambda>e. effective_priority (snd e) = p) ?T)
         \<and> renderer r = resolved_field renderer (map snd ms)"
    unfolding m by blast
  from inst f1 f2 first show ?thesis
    by blast
qed

lemma getConfForUrl_no_table:
  "localSettings c = None \<Longrightarrow> getConfForUrl RegExp (Some c) url = Inl (Error settings_undefined_message)"
  by (simp add: getConfForUrl_def)

text \<open>
  Claim C9 says that resolving a site configuration before the configuration is
  initialized fails with a reported configuration error. With \<^verbatim>\<open>conf\<close> still
  \<^verbatim>\<open>undefined\<close>, \<^verbatim>\<open>getConfForUrl\<close> reads \<^verbatim>\<open>conf.localSettings\<close> before its guard and
  raises a \<open>TypeError\<close>, not the error of the guard; \<^verbatim>\<open>getGlobalConf\<close> tests
  \<^verbatim>\<open>conf === undefined\<close> first and raises its reported error.
\<close>

theorem getConfForUrl_before_ready:
  "getConfForUrl RegExp None url = Inl TypeError
   \<and> getConfForUrl RegExp None url \<noteq> Inl (Error settings_undefined_message)
   \<and> getGlobalConf None = Inl (Error ''getGlobalConf called before config was ready'')"
  by (simp add: getConfForUrl_def getGlobalConf_def)

section \<open>Properties of the defaulting merge\<close>

lemma conforms_iff:
  "conforms (p, n, d) s \<longleftrightarrow> (\<exists>v. lookup_path (p @ [n]) s = Some v \<and> same_shape v d)"
  by (simp add: conforms_def split: option.splits)

lemma props_of_cases:
  "props_of obj = Some ps \<longleftrightarrow> obj = JObj ps \<or> (\<exists>es. obj = JArr es ps)"
  by (cases obj) (auto simp: props_of_def)

lemma get_prop_props:
  "props_of obj = Some ps \<Longrightarrow>
   get_prop obj name = Inr (case map_of ps name of None \<Rightarrow> JUndefined | Some v \<Rightarrow> v)"
  by (auto simp: props_of_cases get_prop_def)

lemma set_prop_Inr:
  "set_prop obj name v = Inr obj' \<Longrightarrow>
   \<exists>ps. props_of obj = Some ps \<and> props_of obj' = Some (AList.update name v ps)
        \<and> typeof obj' = typeof obj \<and> isArray obj' = isArray obj"
  by (cases obj) (auto simp: set_prop_def props_of_def typeof_def isArray_def)

lemma set_prop_same:
  "props_of obj = Some ps \<Longrightarrow> map_of ps name = Some v \<Longrightarrow> set_prop obj name v = Inr obj"
  by (auto simp: props_of_cases set_prop_def update_triv)

lemma props_not_undefined: "props_of obj = Some ps \<Longrightarrow> obj \<noteq> JUndefined"
  by (auto simp: props_of_def)

lemma makeDefaults_Inr:
  assumes "makeDefaults obj name d = Inr obj'"
  shows "\<exists>ps. props_of obj = Some ps
           \<and> (obj' = obj \<and> (\<exists>v. map_of ps name = Some v \<and> same_shape v d)
              \<or> props_of obj' = Some (AList.update name d ps))
           \<and> typeof obj' = typeof obj \<and> isArray obj' = isArray obj"
proof -
  obtain cur where cur: "get_prop obj name = Inr cur"
    using assms by (auto simp: makeDefaults_def split: sum.splits)
  show ?thesis
  proof (cases "cur = JUndefined \<or> typeof cur \<noteq> typeof d \<or> isArray cur \<noteq> isArray d")
    case True
    then have "set_prop obj name d = Inr obj'"
      using assms cur by (auto simp: makeDefaults_def split: if_splits)
    from set_prop_Inr [OF this] show ?thesis by auto
  next
    case False
    then have same: "obj' = obj"
      using assms cur by (auto simp: makeDefaults_def split: if_splits)
    obtain ps where ps: "props_of obj = Some ps"
      using cur False by (cases obj) (auto simp: get_prop_def props_of_def)
    have "map_of ps name = Some cur"
      using cur False get_prop_props [OF ps, of name] by (auto split: option.splits)
    then show ?thesis
      using False same ps by (auto simp: same_shape_def)
  qed
qed

lemma makeDefaults_same:
  assumes "props_of obj = Some ps" and "map_of ps name = Some v" and "same_shape v d"
  shows "makeDefaults obj name d = Inr obj"
  using assms by (simp add: makeDefaults_def get_prop_props same_shape_def)

lemma at_path_Cons_Inr:
  assumes "at_path (k # path) f obj = Inr obj'"
  shows "\<exists>c c'. get_prop obj k = Inr c \<and> at_path path f c = Inr c' \<and> set_prop obj k c' = Inr obj'"
  using assms by (auto split: sum.splits)

lemma at_path_kind:
  "at_path path (\<lambda>obj. makeDefaults obj name d) s = Inr s' \<Longrightarrow>
   \<exists>ps ps'. props_of s = Some ps \<and> props_of s' = Some ps'
      \<and> typeof s' = typeof s \<and> isArray s' = isArray s"
proof (cases path)
  case Nil
  assume "at_path path (\<lambda>obj. makeDefaults obj name d) s = Inr s'"
  then have "makeDefaults s name d = Inr s'" using Nil by simp
  from makeDefaults_Inr [OF this] show ?thesis by auto
next
  case (Cons k rest)
  assume "at_path path (\<lambda>obj. makeDefaults obj name d) s = Inr s'"
  then obtain c' where "set_prop s k c' = Inr s'"
    using Cons at_path_Cons_Inr by blast
  from set_prop_Inr [OF this] show ?thesis by auto
qed

text \<open>When a call below the key \<open>k\<close> succeeds, the child is an own property.\<close>

lemma at_path_child:
  assumes "at_path (k # path) (\<lambda>obj. makeDefaults obj name d) s = Inr s'"
  shows "\<exists>ps c c'. props_of s = Some ps \<and> map_of ps k = Some c
           \<and> at_path path (\<lambda>obj. makeDefaults obj name d) c = Inr c'
           \<and> props_of s' = Some (AList.update k c' ps)"
proof -
  from at_path_Cons_Inr [OF assms] obtain c c' where
    g: "get_prop s k = Inr c" and a: "at_path path (\<lambda>obj. makeDefaults obj name d) c = Inr c'"
    and u: "set_prop s k c' = Inr s'"
    by blast
  from set_prop_Inr [OF u] obtain ps where ps: "props_of s = Some ps"
    and ps': "props_of s' = Some (AList.update k c' ps)"
    by blast
  from at_path_kind [OF a] have "c \<noteq> JUndefined"
    by (auto simp: props_of_def)
  then have "map_of ps k = Some c"
    using g get_prop_props [OF ps, of k] by (auto split: option.splits)
  with ps a ps' show ?thesis by blast
qed

lemma lookup_path_Cons:
  "props_of s = Some ps \<Longrightarrow>
   lookup_path (k # q) s = (case map_of ps k of None \<Rightarrow> None | Some c \<Rightarrow> lookup_path q c)"
  by simp

lemma lookup_path_Cons_Some:
  assumes "lookup_path (k # q) s = Some v"
  shows "\<exists>ps c. props_of s = Some ps \<and> map_of ps k = Some c \<and> lookup_path q c = Some v"
  using assms by (auto split: option.splits)

lemma call_noop:
  "conforms (path, name, d) s \<Longrightarrow> at_path path (\<lambda>obj. makeDefaults obj name d) s = Inr s"
proof (induction path arbitrary: s)
  case Nil
  then obtain v where "lookup_path [name] s = Some v" and sh: "same_shape v d"
    by (auto simp: conforms_iff)
  then obtain ps where "props_of s = Some ps" "map_of ps name = Some v"
    by (auto split: option.splits)
  then show ?case
    using sh by (simp add: makeDefaults_same)
next
  case (Cons k path)
  then obtain v where "lookup_path (k # path @ [name]) s = Some v" and sh: "same_shape v d"
    by (auto simp: conforms_iff)
  then obtain ps c where ps: "props_of s = Some ps" and c: "map_of ps k = Some c"
    and l: "lookup_path (path @ [name]) c = Some v"
    using lookup_path_Cons_Some by blast
  have "conforms (path, name, d) c"
    using l sh by (simp add: conforms_iff)
  then have "at_path path (\<lambda>obj. makeDefaults obj name d) c = Inr c"
    by (rule Cons.IH)
  then show ?case
    by (simp add: get_prop_props [OF ps] c set_prop_same [OF ps c])
qed

lemma call_establishes:
  "at_path path (\<lambda>obj. makeDefaults obj name d) s = Inr s' \<Longrightarrow> d \<noteq> JUndefined \<Longrightarrow>
   conforms (path, name, d) s'"
proof (induction path arbitrary: s s')
  case Nil
  then have "makeDefaults s name d = Inr s'" by simp
  from makeDefaults_Inr [OF this] Nil.prems(2) show ?case
    by (auto simp: conforms_iff update_conv' same_shape_def)
next
  case (Cons k path)
  from at_path_child [OF Cons.prems(1)] obtain ps c c' where
    a: "at_path path (\<lambda>obj. makeDefaults obj name d) c = Inr c'"
    and ps': "props_of s' = Some (AList.update k c' ps)"
    by blast
  have "conforms (path, name, d) c'"
    using a Cons.prems(2) by (rule Cons.IH)
  then show ?case
    using ps' by (simp add: conforms_iff update_conv')
qed

lemma call_frame:
  "at_path path (\<lambda>obj. makeDefaults obj name d) s = Inr s' \<Longrightarrow>
   \<not> prefix (path @ [name]) q \<Longrightarrow> \<not> prefix q (path @ [name]) \<Longrightarrow>
   lookup_path q s' = lookup_path q s"
proof (induction path arbitrary: q s s')
  case Nil
  then obtain k rest where q: "q = k # rest" and k: "k \<noteq> name"
    by (cases q) auto
  from Nil have "makeDefaults s name d = Inr s'" by simp
  from makeDefaults_Inr [OF this] show ?case
    using k by (auto simp: q update_conv')
next
  case (Cons k' path)
  from Cons.prems(3) obtain k rest where q: "q = k # rest"
    by (cases q) auto
  from at_path_child [OF Cons.prems(1)] obtain ps c c' where
    ps: "props_of s = Some ps" and c: "map_of ps k' = Some c"
    and a: "at_path path (\<lambda>obj. makeDefaults obj name d) c = Inr c'"
    and ps': "props_of s' = Some (AList.update k' c' ps)"
    by blast
  show ?case
  proof (cases "k = k'")
    case True
    then have "\<not> prefix (path @ [name]) rest" "\<not> prefix rest (path @ [name])"
      using Cons.prems(2,3) q by auto
    with a have "lookup_path rest c' = lookup_path rest c"
      by (rule Cons.IH)
    then show ?thesis
      using True by (simp add: q ps ps' c update_conv')
  next
    case False
    then show ?thesis
      by (simp add: q ps ps' update_conv')
  qed
qed

text \<open>A call below \<open>q\<close> changes the value at \<open>q\<close> but not its shape.\<close>

lemma call_inside:
  "at_path path (\<lambda>obj. makeDefaults obj name d) s = Inr s' \<Longrightarrow> prefix q path \<Longrightarrow>
   lookup_path q s = Some v \<Longrightarrow>
   \<exists>v'. lookup_path q s' = Some v' \<and> typeof v' = typeof v \<and> isArray v' = isArray v
        \<and> v' \<noteq> JUndefined"
proof (induction q arbitrary: path s s' v)
  case Nil
  from at_path_kind [OF Nil.prems(1)] Nil.prems(3) show ?case
    by (auto simp: props_of_def)
next
  case (Cons k q)
  from Cons.prems(2) obtain rest where path: "path = k # rest" and pre: "prefix q rest"
    by (cases path) auto
  from at_path_child [OF Cons.prems(1) [unfolded path]] obtain ps c c' where
    ps: "props_of s = Some ps" and c: "map_of ps k = Some c"
    and a: "at_path rest (\<lambda>obj. makeDefaults obj name d) c = Inr c'"
    and ps': "props_of s' = Some (AList.update k c' ps)"
    by blast
  have "lookup_path q c = Some v"
    using Cons.prems(3) ps c by simp
  from Cons.IH [OF a pre this] show ?case
    by (simp add: ps' update_conv')
qed

lemma call_preserves:
  assumes c: "conforms (p, n, d) s"
    and a: "at_path path (\<lambda>obj. makeDefaults obj name d') s = Inr s'"
    and np: "\<not> prefix (path @ [name]) (p @ [n])"
  shows "conforms (p, n, d) s'"
proof (cases "prefix (p @ [n]) (path @ [name])")
  case False
  with a np have "lookup_path (p @ [n]) s' = lookup_path (p @ [n]) s"
    by (rule call_frame)
  then show ?thesis
    using c by (simp add: conforms_iff)
next
  case True
  then have pre: "prefix (p @ [n]) path"
    using np by auto
  obtain v where v: "lookup_path (p @ [n]) s = Some v" and sh: "same_shape v d"
    using c by (auto simp: conforms_iff)
  from call_inside [OF a pre v] sh show ?thesis
    by (auto simp: conforms_iff same_shape_def)
qed

lemma run_calls_noop:
  "\<forall>c \<in> set cs. conforms c s \<Longrightarrow> run_calls cs s = Inr s"
proof (induction cs)
  case Nil
  show ?case by simp
next
  case (Cons c cs)
  obtain p n d where c: "c = (p, n, d)" by (cases c)
  have "at_path p (\<lambda>obj. makeDefaults obj n d) s = Inr s"
    using Cons.prems by (simp add: c call_noop)
  then show ?case
    using Cons by (simp add: c)
qed

lemma run_calls_conforms:
  "run_calls cs s = Inr t \<Longrightarrow> ordered cs \<Longrightarrow> \<forall>(p, n, d) \<in> set cs. d \<noteq> JUndefined \<Longrightarrow>
   \<forall>c \<in> set done. conforms c s \<Longrightarrow>
   \<forall>c \<in> set done. \<forall>c' \<in> set cs. \<not> prefix (call_target c') (call_target c) \<Longrightarrow>
   \<forall>c \<in> set done \<union> set cs. conforms c t"
proof (induction cs arbitrary: s "done")
  case Nil
  then show ?case by simp
next
  case (Cons c cs)
  obtain p n d where c: "c = (p, n, d)" by (cases c)
  obtain s1 where s1: "at_path p (\<lambda>obj. makeDefaults obj n d) s = Inr s1"
    and rest: "run_calls cs s1 = Inr t"
    using Cons.prems(1) by (auto simp: c split: sum.splits)
  have d: "d \<noteq> JUndefined" using Cons.prems(3) c by auto
  have new: "conforms c s1"
    unfolding c using s1 d by (rule call_establishes)
  have old: "conforms c0 s1" if "c0 \<in> set done" for c0
  proof -
    obtain p0 n0 d0 where c0: "c0 = (p0, n0, d0)" by (cases c0)
    have "conforms (p0, n0, d0) s" using Cons.prems(4) that c0 by auto
    moreover have "\<not> prefix (p @ [n]) (p0 @ [n0])"
      using Cons.prems(5) that c0 c by fastforce
    ultimately show ?thesis
      unfolding c0 using s1 call_preserves by blast
  qed
  have "\<forall>c \<in> set (c # done) \<union> set cs. conforms c t"
  proof (rule Cons.IH [OF rest])
    show "ordered cs" using Cons.prems(2) by simp
    show "\<forall>(p, n, d) \<in> set cs. d \<noteq> JUndefined" using Cons.prems(3) by simp
    show "\<forall>c \<in> set (c # done). conforms c s1" using new old by simp
    show "\<forall>c0 \<in> set (c # done). \<forall>c' \<in> set cs. \<not> prefix (call_target c') (call_target c0)"
      using Cons.prems(2,5) by (auto simp: list_all_iff)
  qed
  then show ?case by auto
qed

lemma run_calls_frame:
  "run_calls cs s = Inr t \<Longrightarrow> \<forall>c \<in> set cs. \<not> strict_prefix q (call_target c) \<Longrightarrow>
   \<forall>c \<in> set cs. prefix (call_target c) q \<longrightarrow> conforms c s \<Longrightarrow>
   lookup_path q t = lookup_path q s"
proof (induction cs arbitrary: s)
  case Nil
  then show ?case by simp
next
  case (Cons c cs)
  obtain p n d where c: "c = (p, n, d)" by (cases c)
  obtain s1 where s1: "at_path p (\<lambda>obj. makeDefaults obj n d) s = Inr s1"
    and rest: "run_calls cs s1 = Inr t"
    using Cons.prems(1) by (auto simp: c split: sum.splits)
  show ?case
  proof (cases "prefix (p @ [n]) q")
    case True
    then have "conforms (p, n, d) s" using Cons.prems(3) c by simp
    then have "s1 = s" using s1 by (simp add: call_noop)
    then show ?thesis
      using Cons.IH [OF rest] Cons.prems(2,3) by simp
  next
    case False
    have nq: "\<not> prefix q (p @ [n])"
      using Cons.prems(2) False c by (auto simp: strict_prefix_def)
    have fr: "lookup_path q s1 = lookup_path q s"
      using s1 False nq by (rule call_frame)
    have "conforms c' s1" if "c' \<in> set cs" "prefix (call_target c') q" for c'
    proof -
      obtain p' n' d' where c': "c' = (p', n', d')" by (cases c')
      have "conforms (p', n', d') s" using Cons.prems(3) that c' by auto
      moreover have "\<not> prefix (p @ [n]) (p' @ [n'])"
      proof
        assume "prefix (p @ [n]) (p' @ [n'])"
        moreover have "prefix (p' @ [n']) q" using that(2) c' by simp
        ultimately have "prefix (p @ [n]) q" by (rule prefix_order.trans)
        with False show False by simp
      qed
      ultimately show ?thesis
        unfolding c' using s1 call_preserves by blast
    qed
    then have "lookup_path q t = lookup_path q s1"
      using Cons.IH [OF rest] Cons.prems(2) by simp
    with fr show ?thesis by simp
  qed
qed


lemma default_calls_list:
  "default_calls os =
     [([], ''globalSettings'', JObj []),
      ([''globalSettings''], ''<C-n>'', JStr ''default''),
      ([''globalSettings''], ''<C-t>'', JStr ''default''),
      ([''globalSettings''], ''<C-w>'', JStr ''default''),
      ([''globalSettings''], ''<CS-n>'', JStr ''default''),
      ([''globalSettings''], ''<CS-t>'', JStr ''default''),
      ([''globalSettings''], ''<CS-w>'', JStr ''default''),
      ([''globalSettings''], ''ignoreKeys'', JObj []),
      ([''globalSettings''], ''keyboard_layouts'', JObj []),
      ([''globalSettings'', ''keyboard_layouts''], ''default'', defaultKeyPairs_value),
      ([''globalSettings''], ''shiftAlt'', JBool False),
      ([''globalSettings''], ''shiftCtrl'', JBool True),
      ([''globalSettings''], ''shiftAltCtrl'', JBool True),
      ([''globalSettings''], ''cmdlineTimeout'', JNum 3000),
      ([''globalSettings''], ''alt'', if os = ''mac'' then JStr ''alphanum'' else JStr ''all''),
      ([], ''localSettings'', JObj []),
      ([''localSettings''], ''.*'', JObj []),
      ([''localSettings'', ''.*''], ''cmdline'', snd (default_site ! 0)),
      ([''localSettings'', ''.*''], ''content'', snd (default_site ! 1)),
      ([''localSettings'', ''.*''], ''priority'', snd (default_site ! 2)),
      ([''localSettings'', ''.*''], ''renderer'', snd (default_site ! 3)),
      ([''localSettings'', ''.*''], ''selector'', snd (default_site ! 4)),
      ([''localSettings'', ''.*''], ''takeover'', snd (default_site ! 5)),
      ([''localSettings'', ''.*''], ''filename'', snd (default_site ! 6))]"
  by (simp add: default_calls_def makeDefaultLocalSetting_def default_site_def)

lemma default_calls_targets:
  "map call_target (default_calls os) =
     [[''globalSettings''],
      [''globalSettings'', ''<C-n>''], [''globalSettings'', ''<C-t>''],
      [''globalSettings'', ''<C-w>''], [''globalSettings'', ''<CS-n>''],
      [''globalSettings'', ''<CS-t>''], [''globalSettings'', ''<CS-w>''],
      [''globalSettings'', ''ignoreKeys''], [''globalSettings'', ''keyboard_layouts''],
      [''globalSettings'', ''keyboard_layouts'', ''default''],
      [''globalSettings'', ''shiftAlt''], [''globalSettings'', ''shiftCtrl''],
      [''globalSettings'', ''shiftAltCtrl''], [''globalSettings'', ''cmdlineTimeout''],
      [''globalSettings'', ''alt''],
      [''localSettings''], [''localSettings'', ''.*''],
      [''localSettings'', ''.*'', ''cmdline''], [''localSettings'', ''.*'', ''content''],
      [''localSettings'', ''.*'', ''priority''], [''localSettings'', ''.*'', ''renderer''],
      [''localSettings'', ''.*'', ''selector''], [''localSettings'', ''.*'', ''takeover''],
      [''localSettings'', ''.*'', ''filename'']]"
  by (simp add: default_calls_list)

lemma default_calls_ordered: "ordered (default_calls os)"
  by (simp add: default_calls_list)

lemma default_calls_defined: "\<forall>(p, n, d) \<in> set (default_calls os). d \<noteq> JUndefined"
  by (simp add: default_calls_list default_site_def defaultKeyPairs_value_def)

lemma undefined_start:
  "q \<noteq> [] \<Longrightarrow> lookup_path q (if s = JUndefined then JObj [] else s) = lookup_path q s"
  by (cases q) (auto simp: props_of_def)

lemma undefined_start_conforms:
  "conforms c (if s = JUndefined then JObj [] else s) = conforms c s"
  by (cases c) (simp add: conforms_def undefined_start)

text \<open>
  Claim C6. Applying the defaulting merge to its own output changes nothing: if
  \<^verbatim>\<open>mergeWithDefaults(os, s)\<close> returns \<open>t\<close>, then \<^verbatim>\<open>mergeWithDefaults(os, t)\<close> returns \<open>t\<close>.
\<close>

theorem mergeWithDefaults_idempotent:
  assumes "mergeWithDefaults os s = Inr t"
  shows "mergeWithDefaults os t = Inr t"
proof -
  let ?s0 = "if s = JUndefined then JObj [] else s"
  have run: "run_calls (default_calls os) ?s0 = Inr t"
    using assms by (simp add: mergeWithDefaults_def)
  have "\<forall>c \<in> set [] \<union> set (default_calls os). conforms c t"
    by (rule run_calls_conforms [OF run default_calls_ordered default_calls_defined]) simp_all
  then have all: "\<forall>c \<in> set (default_calls os). conforms c t"
    by simp
  then have "conforms ([], ''globalSettings'', JObj []) t"
    by (simp add: default_calls_list)
  then have "t \<noteq> JUndefined"
    by (auto simp: conforms_iff props_of_def split: option.splits)
  moreover have "run_calls (default_calls os) t = Inr t"
    using all by (rule run_calls_noop)
  ultimately show ?thesis
    by (simp add: mergeWithDefaults_def)
qed

lemma example_tree_merges: "\<exists>t. mergeWithDefaults ''mac'' example_tree = Inr t"
proof -
  have "case mergeWithDefaults ''mac'' example_tree of Inl e \<Rightarrow> False | Inr t \<Rightarrow> True"
    by code_simp
  then show ?thesis
    by (auto split: sum.splits)
qed

theorem mergeWithDefaults_idempotent_witness:
  "\<exists>t. mergeWithDefaults ''mac'' example_tree = Inr t \<and> mergeWithDefaults ''mac'' t = Inr t"
proof -
  obtain t where t: "mergeWithDefaults ''mac'' example_tree = Inr t"
    using example_tree_merges by blast
  from mergeWithDefaults_idempotent [OF t] t show ?thesis
    by blast
qed

lemma call_paths:
  "c \<in> set (default_calls os) \<Longrightarrow>
   fst c \<in> {[], [''globalSettings''], [''globalSettings'', ''keyboard_layouts''],
            [''localSettings''], [''localSettings'', ''.*'']}"
  by (auto simp: default_calls_list)

lemma names_at_paths:
  "names_at os [] = [''globalSettings'', ''localSettings'']"
  "names_at os [''globalSettings''] =
     [''<C-n>'', ''<C-t>'', ''<C-w>'', ''<CS-n>'', ''<CS-t>'', ''<CS-w>'', ''ignoreKeys'',
      ''keyboard_layouts'', ''shiftAlt'', ''shiftCtrl'', ''shiftAltCtrl'', ''cmdlineTimeout'',
      ''alt'']"
  "names_at os [''globalSettings'', ''keyboard_layouts''] = [''default'']"
  "names_at os [''localSettings''] = [''.*'']"
  "names_at os [''localSettings'', ''.*''] =
     [''cmdline'', ''content'', ''priority'', ''renderer'', ''selector'', ''takeover'',
      ''filename'']"
  by (simp_all add: names_at_def default_calls_list)

lemma prefix_of_call_path:
  assumes "c \<in> set (default_calls os)" and "prefix q (fst c)"
  shows "q \<in> {[], [''globalSettings''], [''globalSettings'', ''keyboard_layouts''],
            [''localSettings''], [''localSettings'', ''.*'']}"
  using call_paths [OF assms(1)] assms(2)
  by (auto simp: prefix_Cons)

lemma strict_prefix_target:
  "strict_prefix q (call_target c) \<longleftrightarrow> prefix q (fst c)"
  by (cases c) (auto simp: strict_prefix_def)

lemma below_named:
  assumes "c \<in> set (default_calls os)" and "strict_prefix (p @ [k]) (call_target c)"
  shows "k \<in> set (names_at os p)"
proof -
  have pre: "prefix (p @ [k]) (fst c)"
    using assms(2) by (simp add: strict_prefix_target)
  from prefix_of_call_path [OF assms(1) pre]
  have "p @ [k] \<in> {[''globalSettings''], [''globalSettings'', ''keyboard_layouts''],
            [''localSettings''], [''localSettings'', ''.*'']}"
    by simp
  then have "(p, k) \<in> {([], ''globalSettings''), ([''globalSettings''], ''keyboard_layouts''),
            ([], ''localSettings''), ([''localSettings''], ''.*'')}"
    by (auto simp: append_eq_Cons_conv)
  then show ?thesis
    by (auto simp: names_at_paths)
qed

lemma below_not_leaf:
  assumes "c \<in> set (default_calls os)" and "strict_prefix q (call_target c)" and "q \<noteq> []"
  shows "names_at os q \<noteq> []"
proof -
  have "prefix q (fst c)"
    using assms(2) by (simp add: strict_prefix_target)
  from prefix_of_call_path [OF assms(1) this] assms(3)
  have "q \<in> {[''globalSettings''], [''globalSettings'', ''keyboard_layouts''],
            [''localSettings''], [''localSettings'', ''.*'']}"
    by simp
  then show ?thesis
    by (auto simp: names_at_paths)
qed

lemma merge_frame:
  assumes m: "mergeWithDefaults os s = Inr t"
    and below: "\<forall>c \<in> set (default_calls os). \<not> strict_prefix q (call_target c)"
    and sh: "shapes_match os q s"
    and q: "q \<noteq> []"
  shows "lookup_path q t = lookup_path q s"
proof -
  let ?s0 = "if s = JUndefined then JObj [] else s"
  have run: "run_calls (default_calls os) ?s0 = Inr t"
    using m by (simp add: mergeWithDefaults_def)
  have "\<forall>c \<in> set (default_calls os). prefix (call_target c) q \<longrightarrow> conforms c ?s0"
    using sh unfolding undefined_start_conforms by (simp add: shapes_match_def list_all_iff)
  with run below have "lookup_path q t = lookup_path q ?s0"
    by (rule run_calls_frame)
  then show ?thesis
    unfolding undefined_start [OF q] .
qed

lemma shapes_match_iff:
  "shapes_match os q s \<longleftrightarrow> (\<forall>c \<in> set (default_calls os). prefix (call_target c) q \<longrightarrow> conforms c s)"
  by (simp add: shapes_match_def list_all_iff)

lemma unnamed_frame:
  assumes m: "mergeWithDefaults os s = Inr t" and k: "k \<notin> set (names_at os p)"
    and sh: "shapes_match os (p @ [k]) s"
  shows "lookup_path (p @ [k]) t = lookup_path (p @ [k]) s"
proof -
  have "\<forall>c \<in> set (default_calls os). \<not> strict_prefix (p @ [k]) (call_target c)"
    using k below_named by blast
  with m show ?thesis
    using sh by (rule merge_frame) simp
qed

lemma shapes_top: "k \<notin> set (names_at os []) \<Longrightarrow> shapes_match os [k] s"
  by (auto simp: shapes_match_iff names_at_paths default_calls_list)

lemma shapes_global:
  assumes "lookup_path [''globalSettings''] s = Some (JObj g)"
    and "k \<notin> set (names_at os [''globalSettings''])"
  shows "shapes_match os [''globalSettings'', k] s"
proof -
  have "conforms ([], ''globalSettings'', JObj []) s"
    using assms(1) by (simp add: conforms_iff same_shape_def typeof_def isArray_def)
  then show ?thesis
    using assms(2) by (auto simp: shapes_match_iff names_at_paths default_calls_list)
qed

lemma shapes_site:
  assumes "lookup_path [''localSettings''] s = Some (JObj l)"
    and "lookup_path [''localSettings'', site] s = Some (JObj e)"
    and "k \<notin> set (names_at os [''localSettings'', site])"
  shows "shapes_match os [''localSettings'', site, k] s"
proof -
  have l: "conforms ([], ''localSettings'', JObj []) s"
    using assms(1) by (simp add: conforms_iff same_shape_def typeof_def isArray_def)
  have "conforms ([''localSettings''], ''.*'', JObj []) s" if "site = ''.*''"
    using assms(2) that by (simp add: conforms_iff same_shape_def typeof_def isArray_def)
  then show ?thesis
    using assms(3) l by (auto simp: shapes_match_iff names_at_paths default_calls_list)
qed

text \<open>
  Claim C10. The merge only writes fields that the defaults name. A key that the defaults
  do not name comes back with its original value: at the top level; inside
  \<^verbatim>\<open>globalSettings\<close>, when that is an object; inside a site entry, when the site table
  and the entry are objects; and in general below any path \<open>p\<close> on which every named
  container has the shape of its default (a container of another shape is itself a named
  field, which the merge overwrites). A named field with no named field inside it whose
  value already has the shape of the default keeps the value of the user, under the same
  condition on the containers above it. A named container of matching shape is kept as an
  object and changes only in the named fields inside it.
\<close>

theorem mergeWithDefaults_frame:
  assumes "mergeWithDefaults os s = Inr t"
  shows "(\<forall>k. k \<notin> set (names_at os []) \<longrightarrow> lookup_path [k] t = lookup_path [k] s)
       \<and> (\<forall>g k. lookup_path [''globalSettings''] s = Some (JObj g)
            \<longrightarrow> k \<notin> set (names_at os [''globalSettings''])
            \<longrightarrow> lookup_path [''globalSettings'', k] t = lookup_path [''globalSettings'', k] s)
       \<and> (\<forall>l site e k. lookup_path [''localSettings''] s = Some (JObj l)
            \<longrightarrow> lookup_path [''localSettings'', site] s = Some (JObj e)
            \<longrightarrow> k \<notin> set (names_at os [''localSettings'', site])
            \<longrightarrow> lookup_path [''localSettings'', site, k] t
                 = lookup_path [''localSettings'', site, k] s)
       \<and> (\<forall>p k. k \<notin> set (names_at os p) \<longrightarrow> shapes_match os (p @ [k]) s
            \<longrightarrow> lookup_path (p @ [k]) t = lookup_path (p @ [k]) s)
       \<and> (\<forall>c \<in> set (default_calls os).
            names_at os (call_target c) = [] \<longrightarrow> shapes_match os (call_target c) s
            \<longrightarrow> lookup_path (call_target c) t = lookup_path (call_target c) s)"
proof (intro conjI allI impI ballI)
  fix k
  assume k: "k \<notin> set (names_at os [])"
  show "lookup_path [k] t = lookup_path [k] s"
    using unnamed_frame [OF assms k] shapes_top [OF k] by simp
next
  fix g k
  assume g: "lookup_path [''globalSettings''] s = Some (JObj g)"
    and k: "k \<notin> set (names_at os [''globalSettings''])"
  show "lookup_path [''globalSettings'', k] t = lookup_path [''globalSettings'', k] s"
    using unnamed_frame [OF assms k] shapes_global [OF g k] by simp
next
  fix l site e k
  assume l: "lookup_path [''localSettings''] s = Some (JObj l)"
    and e: "lookup_path [''localSettings'', site] s = Some (JObj e)"
    and k: "k \<notin> set (names_at os [''localSettings'', site])"
  show "lookup_path [''localSettings'', site, k] t = lookup_path [''localSettings'', site, k] s"
    using unnamed_frame [OF assms k] shapes_site [OF l e k] by simp
next
  fix p k
  assume "k \<notin> set (names_at os p)" and "shapes_match os (p @ [k]) s"
  with assms show "lookup_path (p @ [k]) t = lookup_path (p @ [k]) s"
    by (rule unnamed_frame)
next
  fix c
  assume c: "c \<in> set (default_calls os)" and leaf: "names_at os (call_target c) = []"
    and sh: "shapes_match os (call_target c) s"
  have q: "call_target c \<noteq> []"
    by (cases c) simp
  have "\<forall>c' \<in> set (default_calls os). \<not> strict_prefix (call_target c) (call_target c')"
    using leaf q below_not_leaf by blast
  with assms show "lookup_path (call_target c) t = lookup_path (call_target c) s"
    using sh q by (rule merge_frame)
qed

theorem mergeWithDefaults_frame_witness:
  "\<exists>t. mergeWithDefaults ''mac'' example_tree = Inr t
      \<and> lookup_path [''version''] t = Some JNull
      \<and> lookup_path [''globalSettings'', ''mine''] t = Some (JNum 3)
      \<and> lookup_path [''localSettings'', ''github.com'', ''priority''] t = Some (JNum 2)
      \<and> lookup_path [''localSettings'', ''github.com''] t = Some (JObj [(''priority'', JNum 2)])
      \<and> lookup_path [''globalSettings'', ''alt''] t = Some (JStr ''all'')"
proof -
  obtain t where t: "mergeWithDefaults ''mac'' example_tree = Inr t"
    using example_tree_merges by blast
  note frame = mergeWithDefaults_frame [OF t]
  have gs: "conforms ([], ''globalSettings'', JObj []) example_tree"
    and ls: "conforms ([], ''localSettings'', JObj []) example_tree"
    and alt: "conforms ([''globalSettings''], ''alt'', JStr ''alphanum'') example_tree"
    by (simp_all add: conforms_iff example_tree_def props_of_def same_shape_def typeof_def isArray_def)
  have s3: "shapes_match ''mac'' ([''localSettings''] @ [''github.com'']) example_tree"
    by (simp add: shapes_match_def default_calls_list ls)
  have s4: "shapes_match ''mac'' (call_target ([''globalSettings''], ''alt'', JStr ''alphanum'')) example_tree"
    by (simp add: shapes_match_def default_calls_list gs alt)
  have c4: "([''globalSettings''], ''alt'', JStr ''alphanum'') \<in> set (default_calls ''mac'')"
    by (simp add: default_calls_list)
  have n4: "names_at ''mac'' (call_target ([''globalSettings''], ''alt'', JStr ''alphanum'')) = []"
    by (simp add: names_at_def default_calls_list)
  have n5: "names_at ''mac'' [''localSettings'', ''github.com''] = []"
    by (simp add: names_at_def default_calls_list)
  have l1: "lookup_path [''globalSettings''] example_tree
      = Some (JObj [(''alt'', JStr ''all''), (''cmdlineTimeout'', JStr ''soon''), (''mine'', JNum 3)])"
    and l2: "lookup_path [''localSettings''] example_tree
      = Some (JObj [(''github.com'', JObj [(''priority'', JNum 2)])])"
    and l3: "lookup_path [''localSettings'', ''github.com''] example_tree
      = Some (JObj [(''priority'', JNum 2)])"
    by (simp_all add: example_tree_def props_of_def)
  from frame have "lookup_path [''version''] t = lookup_path [''version''] example_tree"
    by (simp add: names_at_paths)
  moreover from frame l1 have "lookup_path [''globalSettings'', ''mine''] t
      = lookup_path [''globalSettings'', ''mine''] example_tree"
    by (simp add: names_at_paths)
  moreover have "lookup_path [''localSettings'', ''github.com'', ''priority''] t
      = lookup_path [''localSettings'', ''github.com'', ''priority''] example_tree"
    by (rule frame [THEN conjunct2, THEN conjunct2, THEN conjunct1, rule_format, OF l2 l3])
      (simp add: n5)
  moreover from frame have unnamed: "lookup_path (p @ [k]) t = lookup_path (p @ [k]) example_tree"
    if "k \<notin> set (names_at ''mac'' p)" and "shapes_match ''mac'' (p @ [k]) example_tree" for p k
    using that by blast
  have "lookup_path ([''localSettings''] @ [''github.com'']) t
      = lookup_path ([''localSettings''] @ [''github.com'']) example_tree"
    by (rule unnamed, simp add: names_at_paths, rule s3)
  moreover have "lookup_path (call_target ([''globalSettings''], ''alt'', JStr ''alphanum'')) t
      = lookup_path (call_target ([''globalSettings''], ''alt'', JStr ''alphanum'')) example_tree"
    using frame c4 n4 s4 by blast
  ultimately show ?thesis
    using t by (simp add: example_tree_def props_of_def)
qed

end
